theory Spec2Isabelle
  imports Main "HOL-Library.Sublist"
begin

section \<open>JavaScript strings\<close>

text \<open>
  A JavaScript string is modelled as a \<^typ>\<open>string\<close>. The crawler uses
  \<^verbatim>\<open>s.indexOf(r)\<close> and \<^verbatim>\<open>s.split(c)[0]\<close> for a one-character separator, defined here,
  and \<^verbatim>\<open>s.length\<close>, \<^verbatim>\<open>s.substring(0, n)\<close> and the replacement of single characters, which
  are \<^const>\<open>length\<close>, \<^const>\<open>take\<close> and \<^const>\<open>map\<close>.
\<close>

text \<open>\<^verbatim>\<open>s.indexOf(r)\<close>: the first position at which \<open>r\<close> occurs in \<open>s\<close>, or \<open>-1\<close>.\<close>

fun indexOf_from :: "nat \<Rightarrow> string \<Rightarrow> string \<Rightarrow> int" where
  "indexOf_from i [] r = (if r = [] then int i else - 1)"
| "indexOf_from i (c # cs) r =
     (if prefix r (c # cs) then int i else indexOf_from (Suc i) cs r)"

definition indexOf :: "string \<Rightarrow> string \<Rightarrow> int" where
  "indexOf s r = indexOf_from 0 s r"

text \<open>\<^verbatim>\<open>s.split(c)[0]\<close>: the characters of \<open>s\<close> before the first \<open>c\<close> (all of \<open>s\<close> when
  there is none; the empty string when \<open>s\<close> is empty).\<close>

definition split0 :: "char \<Rightarrow> string \<Rightarrow> string" where
  "split0 c s = takeWhile (\<lambda>d. d \<noteq> c) s"

text \<open>\<^verbatim>\<open>xs.some(r => s.indexOf(r) !== -1)\<close>\<close>

definition some_indexOf :: "string list \<Rightarrow> string \<Rightarrow> bool" where
  "some_indexOf xs s = list_ex (\<lambda>r. indexOf s r \<noteq> - 1) xs"

section \<open>Constants of lib/crawler.js\<close>

definition BLOCKED_RESOURCE_TYPES :: "string list" where
  "BLOCKED_RESOURCE_TYPES =
     [''image'', ''media'', ''font'', ''texttrack'', ''object'', ''beacon'', ''imageset'']"

definition SKIPPED_RESOURCES :: "string list" where
  "SKIPPED_RESOURCES =
     [''quantserve'', ''adzerk'', ''doubleclick'', ''adition'', ''exelator'',
      ''sharethrough'', ''cdn.api.twitter'', ''google-analytics'', ''facebook'',
      ''analytics'', ''optimizely'', ''clicktale'', ''mixpanel'', ''zedo'', ''clicksor'',
      ''favicon.ico'']"

section \<open>Errors\<close>

text \<open>
  What a rejected promise or a \<^verbatim>\<open>throw\<close> carries. \<^verbatim>\<open>_request\<close> only asks whether the
  error is an instance of puppeteer's \<^verbatim>\<open>TimeoutError\<close>; every other error is
  \<open>Error\<close> with its message.
\<close>

datatype error = TimeoutError | Error string

section \<open>The work queue\<close>

record task =
  url :: string
  options :: "(string \<times> string) list"
  priority :: int

record queue_state =
  pending :: "task list"
  inFlight :: nat
  maxConcurrency :: int
  ended :: bool

text \<open>
  Modelled from the spec: the constructor of \<^verbatim>\<open>PriorityQueue\<close> (lib/queue.js, which is
  not among the sources). The concurrency ceiling is fixed at construction; a new queue
  has nothing pending, nothing in flight, and is not ended.
\<close>

definition new_PriorityQueue :: "int \<Rightarrow> queue_state" where
  "new_PriorityQueue m = \<lparr>pending = [], inFlight = 0, maxConcurrency = m, ended = False\<rparr>"

text \<open>
  Modelled from the spec: \<^verbatim>\<open>PriorityQueue.push(url, options, priority)\<close> (lib/queue.js,
  which is not among the sources). It inserts a Task; a lower priority value is more
  urgent and ties keep insertion order, so the Task goes behind every pending Task whose
  priority value is not larger. Pushing after \<^verbatim>\<open>end()\<close> is a silent no-op. The Task's
  \<open>attempt\<close> field, which nothing in lib/crawler.js reads or writes, is left out.
\<close>

definition push :: "string \<Rightarrow> (string \<times> string) list \<Rightarrow> int \<Rightarrow> queue_state \<Rightarrow> queue_state" where
  "push u opts p q =
     (if ended q then q
      else q\<lparr>pending :=
               takeWhile (\<lambda>t. priority t \<le> p) (pending q)
               @ [\<lparr>url = u, options = opts, priority = p\<rparr>]
               @ dropWhile (\<lambda>t. priority t \<le> p) (pending q)\<rparr>)"

section \<open>The crawler\<close>

text \<open>
  One entry of \<^verbatim>\<open>formConfigs\<close>. The \<^verbatim>\<open>url\<close> field is a regular expression in the
  source, used only through \<^verbatim>\<open>url.match(x.url)\<close>; it is modelled as the predicate
  "the string has a match".
\<close>

record form_config =
  fc_url :: "string \<Rightarrow> bool"
  fc_fields :: "(string \<times> string option) list"
  fc_submitElement :: string

text \<open>
  The fields of a \<^verbatim>\<open>Crawler\<close> that decide what is requested, enqueued and recorded. The
  fields left out (\<^verbatim>\<open>proxy\<close>, \<^verbatim>\<open>headless\<close>, \<^verbatim>\<open>verbose\<close>, \<^verbatim>\<open>waitUntil\<close>, \<^verbatim>\<open>timeout\<close>,
  \<^verbatim>\<open>debug\<close>, the browser and the session cache) only say how the browser is launched,
  what is logged and how long a navigation may take.
\<close>

record crawler =
  domains :: "string list"
  screenshots :: "string option"
  blockList :: "string list"
  c_errors :: "(string \<times> error) list"
  c_queue :: queue_state
  c_count :: nat
  c_visited :: "string set"
  c_formConfigs :: "form_config list"

text \<open>
  \<^verbatim>\<open>utils.isLinkAllowed(link, domains)\<close> lives in lib/utils.js, which is not among the
  sources. Every function that calls \<^verbatim>\<open>this._isLinkAllowed\<close> takes it as its first
  argument, so every theorem holds for whatever lib/utils.js computes.
\<close>

type_synonym isLinkAllowed = "string \<Rightarrow> string list \<Rightarrow> bool"

text \<open>\<^verbatim>\<open>Crawler._isSentryResource\<close>\<close>

definition isSentryResource :: "string \<Rightarrow> bool" where
  "isSentryResource u =
     (if indexOf u ''https://browser.sentry-cdn.com'' = 0 then True
      else if indexOf u ''https://sentry.io/api/'' = 0 then True
      else False)"

section \<open>The request handler of one page\<close>

text \<open>
  \<^verbatim>\<open>_request\<close> creates two variables for each page it opens, and its
  \<^verbatim>\<open>page.on("request", ...)\<close> handler closes over them: \<^verbatim>\<open>resourceAttempts\<close>, an
  object used as a dictionary from request URLs to counts, and \<^verbatim>\<open>hasTimedOut\<close>.
  The keys are the URLs of intercepted requests; these are absolute URLs, so none of them
  is the name of a property that an empty object inherits.
\<close>

record session =
  resourceAttempts :: "string \<rightharpoonup> nat"
  hasTimedOut :: bool

definition new_session :: session where
  "new_session = \<lparr>resourceAttempts = Map.empty, hasTimedOut = False\<rparr>"

record http_request =
  req_url :: string
  resourceType :: string

datatype decision = Continue | Abort

text \<open>\<^verbatim>\<open>request._url.split("?")[0].split("#")[0]\<close>\<close>

definition requestUrl :: "http_request \<Rightarrow> string" where
  "requestUrl r = split0 CHR ''#'' (split0 CHR ''?'' (req_url r))"

text \<open>\<^verbatim>\<open>(resourceAttempts[requestUrl] || 0) + 1\<close>\<close>

definition attempts_next :: "session \<Rightarrow> string \<Rightarrow> nat" where
  "attempts_next s u = (case resourceAttempts s u of None \<Rightarrow> 0 | Some n \<Rightarrow> n) + 1"

text \<open>
  The handler: it counts the request, then decides. The result is the decision
  (\<^verbatim>\<open>request.continue()\<close> or \<^verbatim>\<open>request.abort()\<close>) and the session with the new count.
\<close>

definition onRequest ::
  "isLinkAllowed \<Rightarrow> crawler \<Rightarrow> http_request \<Rightarrow> session \<Rightarrow> decision \<times> session" where
  "onRequest isLinkAllowed c request s =
     (let u = requestUrl request;
          n = attempts_next s u;
          s' = s\<lparr>resourceAttempts := (resourceAttempts s)(u \<mapsto> n)\<rparr>
      in (if isSentryResource u then Continue
          else if hasTimedOut s then Abort
          else if n > 5 then Abort
          else if resourceType request \<in> set BLOCKED_RESOURCE_TYPES
                  \<or> some_indexOf SKIPPED_RESOURCES u
                  \<or> some_indexOf (blockList c) u then Abort
          else if resourceType request = ''document'' \<and> \<not> isLinkAllowed u (domains c)
            then Abort
          else Continue,
          s'))"

text \<open>The requests one page makes, in the order in which they are intercepted.\<close>

fun onRequests ::
  "isLinkAllowed \<Rightarrow> crawler \<Rightarrow> http_request list \<Rightarrow> session \<Rightarrow> decision list \<times> session" where
  "onRequests isLinkAllowed c [] s = ([], s)"
| "onRequests isLinkAllowed c (r # rs) s =
     (let (d, s') = onRequest isLinkAllowed c r s;
          (ds, s'') = onRequests isLinkAllowed c rs s'
      in (d # ds, s''))"

section \<open>Enqueueing and link discovery\<close>

text \<open>\<^verbatim>\<open>Crawler.queue(url, options)\<close>\<close>

definition queue :: "string \<Rightarrow> (string \<times> string) list \<Rightarrow> crawler \<Rightarrow> crawler" where
  "queue u opts c =
     c\<lparr>c_visited := insert u (c_visited c), c_queue := push u opts 0 (c_queue c)\<rparr>"

text \<open>The callback that \<^verbatim>\<open>_discoverLinks\<close> runs on each \<^verbatim>\<open>href\<close>.\<close>

definition discoverLink :: "isLinkAllowed \<Rightarrow> string \<Rightarrow> crawler \<Rightarrow> crawler" where
  "discoverLink isLinkAllowed link c =
     (if link = [] then c
      else let link' = split0 CHR ''#'' link
           in if isLinkAllowed link' (domains c) \<and> link' \<notin> c_visited c
                 \<and> \<not> some_indexOf SKIPPED_RESOURCES link'
              then queue link' [] c
              else c)"

text \<open>\<^verbatim>\<open>links.forEach(...)\<close>\<close>

definition forEach_link :: "isLinkAllowed \<Rightarrow> string list \<Rightarrow> crawler \<Rightarrow> crawler" where
  "forEach_link isLinkAllowed links c = fold (discoverLink isLinkAllowed) links c"

text \<open>
  The two ways in which a URL reaches the queue: a call of \<^verbatim>\<open>queue\<close> (cli.js seeds the
  crawl with one) and the loop of \<^verbatim>\<open>_discoverLinks\<close> over the anchors of a page. Node
  runs one callback at a time, and neither \<^verbatim>\<open>queue\<close> nor the loop awaits anything, so
  the discoveries of pages that are open at the same time happen one after the other: a
  crawl makes a sequence of such calls.
\<close>

datatype enqueue_call = Queue string "(string \<times> string) list" | Discover "string list"

fun enqueue :: "isLinkAllowed \<Rightarrow> enqueue_call \<Rightarrow> crawler \<Rightarrow> crawler" where
  "enqueue isLinkAllowed (Queue u opts) c = queue u opts c"
| "enqueue isLinkAllowed (Discover links) c = forEach_link isLinkAllowed links c"

section \<open>The page and what it answers\<close>

text \<open>
  The page is puppeteer's. The model records the calls the crawler makes on it, in order,
  and takes what the page answers from an environment: one \<open>page_round\<close> for each run of
  \<^verbatim>\<open>_processPage\<close> on the page (the first run, then one more after each form
  submission). An answer of type \<^typ>\<open>error option\<close> is \<open>None\<close> when the awaited promise
  resolves and \<open>Some e\<close> when it rejects with \<open>e\<close>.
\<close>

datatype page_call =
    Goto string
  | SetViewport
  | Screenshot string
  | QueryAnchors
  | Scroll
  | CheckCheckboxes
  | SetValue string "string option"
  | Click string
  | WaitForNavigation
  | Close

record page_round =
  page_url :: string
  screenshot_result :: "error option"
  anchors :: "error + string list"
  scroll_result :: "error option"
  checkboxes_result :: "error option"
  navigation_result :: "error option"

text \<open>The world of one task: the crawler, the calls made on the page, the decisions made.\<close>

record world =
  self :: crawler
  page_calls :: "page_call list"
  decisions :: "decision list"

definition call :: "page_call \<Rightarrow> world \<Rightarrow> world" where
  "call pc w = w\<lparr>page_calls := page_calls w @ [pc]\<rparr>"

text \<open>
  \<^verbatim>\<open>new URL(url).pathname\<close> is Node's; it is an argument of the model, \<open>Inl e\<close> where
  the constructor throws.
\<close>

type_synonym pathname = "string \<Rightarrow> error + string"

text \<open>
  The file name of a screenshot, from the pathname:
  \<^verbatim>\<open>pathname.replace(/(\.|\/|:|%|#)/g, "_")\<close>, cut to 100 characters.
\<close>

definition screenshotFileName :: "string \<Rightarrow> string" where
  "screenshotFileName p =
     (let fileName = map (\<lambda>c. if c \<in> set ''./:%#'' then CHR ''_'' else c) p
      in if length fileName > 100 then take 100 fileName else fileName)"

text \<open>The \<^verbatim>\<open>if (this.screenshots) { ... }\<close> block of \<^verbatim>\<open>_processPage\<close>.\<close>

definition takeScreenshot :: "pathname \<Rightarrow> page_round \<Rightarrow> string \<Rightarrow> world \<Rightarrow> error option \<times> world" where
  "takeScreenshot pathname r u w =
     (case screenshots (self w) of
        None \<Rightarrow> (None, w)
      | Some dir \<Rightarrow>
          (case pathname u of
             Inl e \<Rightarrow> (Some e, w)
           | Inr p \<Rightarrow>
               (screenshot_result r,
                call (Screenshot (dir @ ''/'' @ screenshotFileName p @ ''.jpeg'')) w)))"

text \<open>\<^verbatim>\<open>Crawler._discoverLinks\<close>\<close>

definition discoverLinks :: "isLinkAllowed \<Rightarrow> page_round \<Rightarrow> world \<Rightarrow> error option \<times> world" where
  "discoverLinks isLinkAllowed r w =
     (case anchors r of
        Inl e \<Rightarrow> (Some e, call QueryAnchors w)
      | Inr links \<Rightarrow>
          (None, (call QueryAnchors w)\<lparr>self := forEach_link isLinkAllowed links (self w)\<rparr>))"

text \<open>\<^verbatim>\<open>Crawler._emulateScrolling\<close> and \<^verbatim>\<open>Crawler._checkAllCheckboxes\<close>: one awaited call each.\<close>

definition emulateScrolling :: "page_round \<Rightarrow> world \<Rightarrow> error option \<times> world" where
  "emulateScrolling r w = (scroll_result r, call Scroll w)"

definition checkAllCheckboxes :: "page_round \<Rightarrow> world \<Rightarrow> error option \<times> world" where
  "checkAllCheckboxes r w = (checkboxes_result r, call CheckCheckboxes w)"

text \<open>
  The \<^verbatim>\<open>if (formData) { ... }\<close> block of \<^verbatim>\<open>_processPage\<close> up to its recursive call:
  \<^verbatim>\<open>page.$eval\<close> on each field and \<^verbatim>\<open>page.click\<close> are started and not awaited, so only
  \<^verbatim>\<open>page.waitForNavigation\<close> can throw here; after it \<^verbatim>\<open>this._count += 1\<close>.
\<close>

definition submitForm :: "form_config \<Rightarrow> page_round \<Rightarrow> world \<Rightarrow> error option \<times> world" where
  "submitForm formData r w =
     (let w1 = fold (\<lambda>(fieldName, v). call (SetValue fieldName v)) (fc_fields formData) w;
          w2 = call (Click (fc_submitElement formData)) w1;
          w3 = call WaitForNavigation w2
      in case navigation_result r of
           Some e \<Rightarrow> (Some e, w3)
         | None \<Rightarrow> (None, w3\<lparr>self := (self w3)\<lparr>c_count := c_count (self w3) + 1\<rparr>\<rparr>))"

text \<open>\<^verbatim>\<open>initialUrl || page.url()\<close>; \<open>None\<close> is \<^verbatim>\<open>undefined\<close>.\<close>

definition or_url :: "string option \<Rightarrow> string \<Rightarrow> string" where
  "or_url initialUrl u = (case initialUrl of None \<Rightarrow> u | Some i \<Rightarrow> if i = [] then u else i)"

text \<open>
  \<^verbatim>\<open>Crawler._processPage(page, initialUrl)\<close>. The third argument counts the runs of
  \<^verbatim>\<open>_processPage\<close> made on this page so far and selects the environment's answers.
  The result is \<open>None\<close> when the call never returns, \<open>Some (Some e, w)\<close> when it throws
  \<open>e\<close> and \<open>Some (None, w)\<close> when it returns.
\<close>

partial_function (option) processPage ::
  "isLinkAllowed \<Rightarrow> pathname \<Rightarrow> (nat \<Rightarrow> page_round) \<Rightarrow> nat \<Rightarrow> string option \<Rightarrow> world
     \<Rightarrow> (error option \<times> world) option" where
  "processPage isLinkAllowed pathname rounds k initialUrl w =
     (let r = rounds k;
          u = or_url initialUrl (page_url r)
      in case takeScreenshot pathname r u w of
           (Some e, w1) \<Rightarrow> Some (Some e, w1)
         | (None, w1) \<Rightarrow>
      (case discoverLinks isLinkAllowed r w1 of
           (Some e, w2) \<Rightarrow> Some (Some e, w2)
         | (None, w2) \<Rightarrow>
      (case emulateScrolling r w2 of
           (Some e, w3) \<Rightarrow> Some (Some e, w3)
         | (None, w3) \<Rightarrow>
      (case checkAllCheckboxes r w3 of
           (Some e, w4) \<Rightarrow> Some (Some e, w4)
         | (None, w4) \<Rightarrow>
      (case find (\<lambda>x. fc_url x u) (c_formConfigs (self w4)) of
           None \<Rightarrow> Some (None, w4)
         | Some formData \<Rightarrow>
             (case submitForm formData r w4 of
                (Some e, w5) \<Rightarrow> Some (Some e, w5)
              | (None, w5) \<Rightarrow>
                  processPage isLinkAllowed pathname rounds (Suc k) None w5))))))"

text \<open>
  One run of the body of \<^verbatim>\<open>_processPage\<close> up to its recursive call, for the proofs:
  \<open>Inl\<close> when the run ends there (returning or throwing), \<open>Inr w\<close> when it goes on to
  call \<^verbatim>\<open>_processPage\<close> again in \<open>w\<close>.
\<close>

definition processPage_step ::
  "isLinkAllowed \<Rightarrow> pathname \<Rightarrow> page_round \<Rightarrow> string \<Rightarrow> world
     \<Rightarrow> (error option \<times> world) + world" where
  "processPage_step isLinkAllowed pathname r u w =
     (case takeScreenshot pathname r u w of
        (Some e, w1) \<Rightarrow> Inl (Some e, w1)
      | (None, w1) \<Rightarrow>
     (case discoverLinks isLinkAllowed r w1 of
        (Some e, w2) \<Rightarrow> Inl (Some e, w2)
      | (None, w2) \<Rightarrow>
     (case emulateScrolling r w2 of
        (Some e, w3) \<Rightarrow> Inl (Some e, w3)
      | (None, w3) \<Rightarrow>
     (case checkAllCheckboxes r w3 of
        (Some e, w4) \<Rightarrow> Inl (Some e, w4)
      | (None, w4) \<Rightarrow>
     (case find (\<lambda>x. fc_url x u) (c_formConfigs (self w4)) of
        None \<Rightarrow> Inl (None, w4)
      | Some formData \<Rightarrow>
          (case submitForm formData r w4 of
             (Some e, w5) \<Rightarrow> Inl (Some e, w5)
           | (None, w5) \<Rightarrow> Inr w5))))))"

text \<open>
  What \<^verbatim>\<open>_processPage\<close> leaves alone: it only adds page calls, and of the crawler it
  changes the queue, the count and the visited set, which only grows.
\<close>

definition frame :: "world \<Rightarrow> world \<Rightarrow> bool" where
  "frame w w' \<longleftrightarrow>
     prefix (page_calls w) (page_calls w') \<and> decisions w' = decisions w
     \<and> c_errors (self w') = c_errors (self w)
     \<and> domains (self w') = domains (self w)
     \<and> blockList (self w') = blockList (self w)
     \<and> screenshots (self w') = screenshots (self w)
     \<and> c_formConfigs (self w') = c_formConfigs (self w)
     \<and> c_visited (self w) \<subseteq> c_visited (self w')"

text \<open>The number of form submissions made on the page so far.\<close>

definition submissions :: "world \<Rightarrow> nat" where
  "submissions w = length (filter (\<lambda>pc. pc = WaitForNavigation) (page_calls w))"

section \<open>One task\<close>

text \<open>
  What the page answers during one call of \<^verbatim>\<open>_request\<close>: the requests intercepted
  while \<^verbatim>\<open>page.goto\<close> is pending, how \<^verbatim>\<open>page.goto\<close> settles, the requests
  intercepted after that, how \<^verbatim>\<open>page.setViewport\<close> settles, and the answers to
  \<^verbatim>\<open>_processPage\<close>.
\<close>

record task_env =
  nav_requests :: "http_request list"
  goto_result :: "error option"
  post_requests :: "http_request list"
  viewport_result :: "error option"
  rounds :: "nat \<Rightarrow> page_round"

text \<open>\<^verbatim>\<open>this._errors.push([url, err])\<close>\<close>

definition push_error :: "string \<Rightarrow> error \<Rightarrow> world \<Rightarrow> world" where
  "push_error u e w = w\<lparr>self := (self w)\<lparr>c_errors := c_errors (self w) @ [(u, e)]\<rparr>\<rparr>"

text \<open>The handler runs on the requests \<open>rs\<close>; its decisions are recorded in order.\<close>

definition intercept :: "isLinkAllowed \<Rightarrow> http_request list \<Rightarrow> session \<Rightarrow> world \<Rightarrow> session \<times> world" where
  "intercept isLinkAllowed rs s w =
     (let (ds, s') = onRequests isLinkAllowed (self w) rs s
      in (s', w\<lparr>decisions := decisions w @ ds\<rparr>))"

text \<open>
  The second \<^verbatim>\<open>try { ... } catch { ... } finally { ... }\<close> of \<^verbatim>\<open>_request\<close>: the
  \<^verbatim>\<open>catch\<close> block closes the page and the \<^verbatim>\<open>finally\<close> block closes it again.
\<close>

definition postLoad ::
  "isLinkAllowed \<Rightarrow> pathname \<Rightarrow> task_env \<Rightarrow> string \<Rightarrow> world \<Rightarrow> world option" where
  "postLoad isLinkAllowed pathname env u w =
     (let w1 = call SetViewport w
      in case viewport_result env of
           Some e \<Rightarrow> Some (call Close (call Close (push_error u e w1)))
         | None \<Rightarrow>
             (case processPage isLinkAllowed pathname (rounds env) 0 (Some u) w1 of
                None \<Rightarrow> None
              | Some (Some e, w2) \<Rightarrow> Some (call Close (call Close (push_error u e w2)))
              | Some (None, w2) \<Rightarrow> Some (call Close w2)))"

text \<open>
  \<^verbatim>\<open>Crawler._request(url, options)\<close>, from the point where the page is open and its
  request handler installed. The result is \<open>None\<close> when the call never returns.
  What \<^verbatim>\<open>page.close()\<close> answers is not modelled.
\<close>

definition request ::
  "isLinkAllowed \<Rightarrow> pathname \<Rightarrow> task_env \<Rightarrow> string \<Rightarrow> world \<Rightarrow> world option" where
  "request isLinkAllowed pathname env u w =
     (let resourceAttempts_hasTimedOut = new_session;
          w1 = call (Goto u) (w\<lparr>self := (self w)\<lparr>c_count := c_count (self w) + 1\<rparr>\<rparr>);
          (s1, w2) = intercept isLinkAllowed (nav_requests env) resourceAttempts_hasTimedOut w1
      in case goto_result env of
           None \<Rightarrow>
             (let (s2, w3) = intercept isLinkAllowed (post_requests env) s1 w2
              in postLoad isLinkAllowed pathname env u w3)
         | Some TimeoutError \<Rightarrow>
             (let (s2, w3) = intercept isLinkAllowed (post_requests env)
                               (s1\<lparr>hasTimedOut := True\<rparr>) (push_error u TimeoutError w2)
              in postLoad isLinkAllowed pathname env u w3)
         | Some err \<Rightarrow> Some (call Close (push_error u err w2)))"

section \<open>Construction\<close>

text \<open>The options that the constructor of \<^verbatim>\<open>Crawler\<close> reads; \<open>None\<close> is \<^verbatim>\<open>undefined\<close>.\<close>

record crawler_options =
  o_domains :: "string list option"
  o_screenshots :: "string option"
  o_blockList :: "string list option"
  o_maxConcurrency :: "int option"
  o_formConfigs :: "form_config list option"

text \<open>
  \<^verbatim>\<open>x || d\<close>: \<open>d\<close> when \<open>x\<close> is falsy. An array is never falsy, a string is falsy when
  empty, a number when zero.
\<close>

definition or_list :: "'a list option \<Rightarrow> 'a list \<Rightarrow> 'a list" where
  "or_list x d = (case x of None \<Rightarrow> d | Some v \<Rightarrow> v)"

definition or_number :: "int option \<Rightarrow> int \<Rightarrow> int" where
  "or_number x d = (case x of None \<Rightarrow> d | Some v \<Rightarrow> if v = 0 then d else v)"

definition or_null :: "string option \<Rightarrow> string option" where
  "or_null x = (case x of None \<Rightarrow> None | Some v \<Rightarrow> if v = [] then None else Some v)"

text \<open>\<^verbatim>\<open>new Crawler(options)\<close>\<close>

definition new_Crawler :: "crawler_options \<Rightarrow> crawler" where
  "new_Crawler opts =
     \<lparr>domains = or_list (o_domains opts) [],
      screenshots = or_null (o_screenshots opts),
      blockList = or_list (o_blockList opts) [],
      c_errors = [],
      c_queue = new_PriorityQueue (or_number (o_maxConcurrency opts) 5),
      c_count = 0,
      c_visited = {},
      c_formConfigs = or_list (o_formConfigs opts) []\<rparr>"

section \<open>The command line\<close>

text \<open>The arguments that cli.js reads; \<open>None\<close> is \<^verbatim>\<open>undefined\<close>.\<close>

record argv =
  a_url :: string
  a_screenshots :: "string option"
  a_concurrency :: "int option"
  a_username :: "string option"
  a_password :: "string option"

text \<open>\<^verbatim>\<open>argv.concurrency || os.cpus().length - 1\<close>; the second argument is \<^verbatim>\<open>os.cpus().length\<close>.\<close>

definition cli_maxConcurrency :: "argv \<Rightarrow> nat \<Rightarrow> int" where
  "cli_maxConcurrency a ncpus = or_number (a_concurrency a) (int ncpus - 1)"

text \<open>
  The regular expression \<^verbatim>\<open>/\/auth\/login\/([^\/]+\/)?$/i\<close> of the form configuration:
  \<open>login_re_here s\<close> says that it matches at the start of \<open>s\<close>, \<open>login_re s\<close> that it
  matches somewhere in \<open>s\<close>.
\<close>

definition login_re_here :: "string \<Rightarrow> bool" where
  "login_re_here s =
     (list_all2 (\<lambda>c (l, u). c = l \<or> c = u) (take 12 s) (zip ''/auth/login/'' ''/AUTH/LOGIN/'')
      \<and> (let rest = drop 12 s
         in rest = [] \<or> (butlast rest \<noteq> [] \<and> CHR ''/'' \<notin> set (butlast rest) \<and> last rest = CHR ''/'')))"

definition login_re :: "string \<Rightarrow> bool" where
  "login_re s = list_ex login_re_here (suffixes s)"

definition cli_formConfigs :: "argv \<Rightarrow> form_config list" where
  "cli_formConfigs a =
     [\<lparr>fc_url = login_re,
       fc_fields = [(''#id_username'', a_username a), (''#id_password'', a_password a)],
       fc_submitElement = ''button[type=submit]''\<rparr>]"

text \<open>
  The crawler that cli.js constructs. \<open>allowedDomains\<close> is computed from
  \<^verbatim>\<open>new URL(initialUrl).host\<close>, which is Node's, and is an argument here.
\<close>

definition cli_Crawler :: "argv \<Rightarrow> nat \<Rightarrow> string list \<Rightarrow> crawler" where
  "cli_Crawler a ncpus allowedDomains =
     new_Crawler
       \<lparr>o_domains = Some allowedDomains,
        o_screenshots = or_null (a_screenshots a),
        o_blockList = None,
        o_maxConcurrency = Some (cli_maxConcurrency a ncpus),
        o_formConfigs = Some (cli_formConfigs a)\<rparr>"

section \<open>Properties of the string operations\<close>

text \<open>
  \<^verbatim>\<open>s.indexOf(r) === 0\<close> says that \<open>s\<close> starts with \<open>r\<close>, and
  \<^verbatim>\<open>s.indexOf(r) !== -1\<close> that \<open>r\<close> occurs somewhere in \<open>s\<close>.
\<close>

lemma indexOf_from_range: "indexOf_from i s r = - 1 \<or> int i \<le> indexOf_from i s r"
  by (induction s arbitrary: i) (auto, force)

lemma indexOf_from_start: "indexOf_from i s r = int i \<longleftrightarrow> prefix r s"
proof (induction s arbitrary: i)
  case Nil
  then show ?case by simp
next
  case (Cons c cs)
  have "indexOf_from (Suc i) cs r \<noteq> int i"
    using indexOf_from_range [of "Suc i" cs r] by auto
  then show ?case by simp
qed

lemma indexOf_0_iff: "indexOf s r = 0 \<longleftrightarrow> prefix r s"
  using indexOf_from_start [of 0 s r] by (simp add: indexOf_def)

lemma indexOf_from_found: "indexOf_from i s r \<noteq> - 1 \<longleftrightarrow> (\<exists>ps ss. s = ps @ r @ ss)"
proof (induction s arbitrary: i)
  case Nil
  then show ?case by auto
next
  case (Cons c cs)
  show ?case
  proof (cases "prefix r (c # cs)")
    case True
    then obtain ss where "c # cs = r @ ss" by (auto simp: prefix_def)
    then have "c # cs = [] @ r @ ss" by simp
    then have "\<exists>ps ss. c # cs = ps @ r @ ss" by blast
    with True show ?thesis by simp
  next
    case False
    have "(\<exists>ps ss. c # cs = ps @ r @ ss) \<longleftrightarrow> (\<exists>ps ss. cs = ps @ r @ ss)"
    proof
      assume "\<exists>ps ss. c # cs = ps @ r @ ss"
      then obtain ps ss where e: "c # cs = ps @ r @ ss" by blast
      show "\<exists>ps ss. cs = ps @ r @ ss"
      proof (cases ps)
        case Nil
        with e have "prefix r (c # cs)" by (simp add: prefix_def)
        with False show ?thesis by simp
      next
        case (Cons p ps')
        with e have "cs = ps' @ r @ ss" by simp
        then show ?thesis by blast
      qed
    next
      assume "\<exists>ps ss. cs = ps @ r @ ss"
      then obtain ps ss where "cs = ps @ r @ ss" by blast
      then have "c # cs = (c # ps) @ r @ ss" by simp
      then show "\<exists>ps ss. c # cs = ps @ r @ ss" by blast
    qed
    with False Cons.IH [of "Suc i"] show ?thesis by simp
  qed
qed

lemma indexOf_found_iff: "indexOf s r \<noteq> - 1 \<longleftrightarrow> (\<exists>ps ss. s = ps @ r @ ss)"
  by (simp add: indexOf_def indexOf_from_found)

text \<open>Cutting a string at a character keeps a prefix that does not contain the character.\<close>

lemma prefix_split0: "c \<notin> set p \<Longrightarrow> prefix p (split0 c s) \<longleftrightarrow> prefix p s"
proof (induction p arbitrary: s)
  case Nil
  then show ?case by simp
next
  case (Cons a p)
  then show ?case by (cases s) (auto simp: split0_def)
qed

lemma split0_idem: "split0 c (split0 c s) = split0 c s"
  by (simp add: split0_def takeWhile_idem)

section \<open>Properties of the request handler\<close>

lemma isSentryResource_iff:
  "isSentryResource u \<longleftrightarrow>
     prefix ''https://browser.sentry-cdn.com'' u \<or> prefix ''https://sentry.io/api/'' u"
  by (simp add: isSentryResource_def indexOf_0_iff)

lemma isSentryResource_requestUrl: "isSentryResource (requestUrl r) = isSentryResource (req_url r)"
  unfolding isSentryResource_iff requestUrl_def
  by (simp add: prefix_split0)

lemma onRequest_snd:
  "snd (onRequest X c r s) =
     s\<lparr>resourceAttempts := (resourceAttempts s)(requestUrl r \<mapsto> attempts_next s (requestUrl r))\<rparr>"
  by (simp add: onRequest_def Let_def)

lemma onRequest_fst:
  "fst (onRequest X c r s) =
     (if isSentryResource (requestUrl r) then Continue
      else if hasTimedOut s then Abort
      else if attempts_next s (requestUrl r) > 5 then Abort
      else if resourceType r \<in> set BLOCKED_RESOURCE_TYPES
              \<or> some_indexOf SKIPPED_RESOURCES (requestUrl r)
              \<or> some_indexOf (blockList c) (requestUrl r) then Abort
      else if resourceType r = ''document'' \<and> \<not> X (requestUrl r) (domains c) then Abort
      else Continue)"
  by (simp add: onRequest_def Let_def)

lemma onRequest_attempts_next:
  "attempts_next (snd (onRequest X c q s)) u =
     attempts_next s u + (if requestUrl q = u then 1 else 0)"
  by (simp add: onRequest_snd attempts_next_def)

lemma onRequest_hasTimedOut: "hasTimedOut (snd (onRequest X c q s)) = hasTimedOut s"
  by (simp add: onRequest_snd)

lemma onRequests_attempts_next:
  "attempts_next (snd (onRequests X c rs s)) u =
     attempts_next s u + length (filter (\<lambda>q. requestUrl q = u) rs)"
  by (induction rs arbitrary: s)
     (simp_all add: split_beta Let_def onRequest_attempts_next)

lemma onRequests_hasTimedOut: "hasTimedOut (snd (onRequests X c rs s)) = hasTimedOut s"
  by (induction rs arbitrary: s) (simp_all add: split_beta Let_def onRequest_hasTimedOut)

lemma attempts_next_hasTimedOut_update [simp]:
  "attempts_next (s\<lparr>hasTimedOut := b\<rparr>) u = attempts_next s u"
  by (simp add: attempts_next_def)

lemma attempts_next_new_session [simp]: "attempts_next new_session u = 1"
  by (simp add: attempts_next_def new_session_def)

text \<open>Of the crawler, the handler reads only \<^verbatim>\<open>domains\<close> and \<^verbatim>\<open>blockList\<close>.\<close>

lemma onRequest_crawler:
  "domains c' = domains c \<Longrightarrow> blockList c' = blockList c \<Longrightarrow>
     onRequest X c' r s = onRequest X c r s"
  by (simp add: onRequest_def Let_def)

lemma onRequests_crawler:
  "domains c' = domains c \<Longrightarrow> blockList c' = blockList c \<Longrightarrow>
     onRequests X c' rs s = onRequests X c rs s"
  by (induction rs arbitrary: s) (simp_all add: onRequest_crawler [of c' c])

lemma onRequests_length: "length (fst (onRequests X c rs s)) = length rs"
  by (induction rs arbitrary: s) (simp_all add: split_beta Let_def)

lemma onRequests_timed_out:
  "hasTimedOut s \<Longrightarrow> i < length rs \<Longrightarrow> \<not> isSentryResource (req_url (rs ! i)) \<Longrightarrow>
     fst (onRequests X c rs s) ! i = Abort"
proof (induction rs arbitrary: s i)
  case Nil
  then show ?case by simp
next
  case (Cons r rs)
  show ?case
  proof (cases i)
    case 0
    with Cons.prems show ?thesis
      by (simp add: split_beta Let_def onRequest_fst isSentryResource_requestUrl)
  next
    case (Suc j)
    with Cons.prems Cons.IH [of "snd (onRequest X c r s)" j] show ?thesis
      by (simp add: split_beta Let_def onRequest_hasTimedOut)
  qed
qed

text \<open>
  Claim C2. A request whose URL starts with one of the two Sentry prefixes is continued,
  whatever the session's state (timed out or not, any attempt count), the resource type,
  the block list, the domains and \<^verbatim>\<open>isLinkAllowed\<close>.
\<close>

theorem telemetry_always_allowed:
  "isSentryResource (req_url r) \<Longrightarrow> fst (onRequest isLinkAllowed c r s) = Continue"
  by (simp add: onRequest_def Let_def isSentryResource_requestUrl)

theorem telemetry_always_allowed_witness:
  "isSentryResource ''https://sentry.io/api/1/store/?sentry_key=analytics''
   \<and> fst (onRequest (\<lambda>link ds. False)
           (new_Crawler \<lparr>o_domains = Some [''example.com''], o_screenshots = None,
                          o_blockList = Some [''sentry''], o_maxConcurrency = None,
                          o_formConfigs = None\<rparr>)
           \<lparr>req_url = ''https://sentry.io/api/1/store/?sentry_key=analytics'',
            resourceType = ''image''\<rparr>
           \<lparr>resourceAttempts = [''https://sentry.io/api/1/store/'' \<mapsto> 9],
            hasTimedOut = True\<rparr>) = Continue"
  using telemetry_always_allowed
    [of "\<lparr>req_url = ''https://sentry.io/api/1/store/?sentry_key=analytics'',
          resourceType = ''image''\<rparr>"
        "\<lambda>link ds. False"
        "new_Crawler \<lparr>o_domains = Some [''example.com''], o_screenshots = None,
                       o_blockList = Some [''sentry''], o_maxConcurrency = None,
                       o_formConfigs = None\<rparr>"
        "\<lparr>resourceAttempts = [''https://sentry.io/api/1/store/'' \<mapsto> 9], hasTimedOut = True\<rparr>"]
  by (simp add: isSentryResource_iff)

text \<open>
  Claim C5. For a request whose resource type is not \<^verbatim>\<open>document\<close>, the handler's result
  does not depend on \<^verbatim>\<open>isLinkAllowed\<close> or on the allowed domains: the decision is the
  one of the earlier rules alone (Sentry prefix, timed out, more than five attempts,
  blocked resource type, skipped or block-listed substring).
\<close>

theorem domain_rule_documents_only:
  assumes "resourceType r \<noteq> ''document''"
  shows "onRequest X c r s = onRequest X' (c\<lparr>domains := ds\<rparr>) r s
         \<and> fst (onRequest X c r s) =
             (if isSentryResource (requestUrl r) then Continue
              else if hasTimedOut s then Abort
              else if attempts_next s (requestUrl r) > 5 then Abort
              else if resourceType r \<in> set BLOCKED_RESOURCE_TYPES
                      \<or> some_indexOf SKIPPED_RESOURCES (requestUrl r)
                      \<or> some_indexOf (blockList c) (requestUrl r) then Abort
              else Continue)"
  using assms by (simp add: onRequest_def Let_def)

theorem domain_rule_documents_only_witness:
  "resourceType \<lparr>req_url = ''https://cdn.other.org/lib.js?v=3'', resourceType = ''script''\<rparr>
     \<noteq> ''document''
   \<and> fst (onRequest (\<lambda>link ds. False)
           (new_Crawler \<lparr>o_domains = Some [''example.com''], o_screenshots = None,
                          o_blockList = None, o_maxConcurrency = None, o_formConfigs = None\<rparr>)
           \<lparr>req_url = ''https://cdn.other.org/lib.js?v=3'', resourceType = ''script''\<rparr>
           new_session) = Continue"
  using domain_rule_documents_only
    [of "\<lparr>req_url = ''https://cdn.other.org/lib.js?v=3'', resourceType = ''script''\<rparr>"
        "\<lambda>link ds. False"
        "new_Crawler \<lparr>o_domains = Some [''example.com''], o_screenshots = None,
                       o_blockList = None, o_maxConcurrency = None, o_formConfigs = None\<rparr>"
        new_session "\<lambda>link ds. False" "[''example.com'']"]
  by (simp add: isSentryResource_iff requestUrl_def split0_def BLOCKED_RESOURCE_TYPES_def
        SKIPPED_RESOURCES_def some_indexOf_def indexOf_def new_Crawler_def or_list_def
        new_session_def attempts_next_def)

section \<open>Properties of enqueueing and link discovery\<close>

lemma length_filter_takeWhile_dropWhile:
  "length (filter P (takeWhile f xs)) + length (filter P (dropWhile f xs)) = length (filter P xs)"
proof -
  have "filter P xs = filter P (takeWhile f xs @ dropWhile f xs)" by simp
  then show ?thesis by (simp only: filter_append length_append)
qed

lemma push_count:
  "length (filter P (pending (push v opts p q))) =
     length (filter P (pending q))
       + (if \<not> ended q \<and> P \<lparr>url = v, options = opts, priority = p\<rparr> then 1 else 0)"
  using length_filter_takeWhile_dropWhile [of P "\<lambda>t. priority t \<le> p" "pending q"]
  by (simp add: push_def)

lemma queue_count:
  "length (filter (\<lambda>t. split0 CHR ''#'' (url t) = u) (pending (c_queue (queue v opts c)))) \<le>
     length (filter (\<lambda>t. split0 CHR ''#'' (url t) = u) (pending (c_queue c)))
       + (if split0 CHR ''#'' v = u then 1 else 0)"
  by (simp add: queue_def push_count)

lemma queue_visited: "c_visited (queue v opts c) = insert v (c_visited c)"
  by (simp add: queue_def)

text \<open>
  For a URL \<open>u\<close>, the number of pending tasks whose URL without its fragment is \<open>u\<close>,
  plus one while \<open>u\<close> is not in the visited set, never grows in link discovery.
\<close>

lemma discoverLink_potential:
  "length (filter (\<lambda>t. split0 CHR ''#'' (url t) = u) (pending (c_queue (discoverLink X link c))))
     + (if u \<in> c_visited (discoverLink X link c) then 0 else 1) \<le>
   length (filter (\<lambda>t. split0 CHR ''#'' (url t) = u) (pending (c_queue c)))
     + (if u \<in> c_visited c then 0 else 1)"
proof -
  let ?l = "split0 CHR ''#'' link"
  show ?thesis
  proof (cases "discoverLink X link c = c")
    case True
    then show ?thesis by simp
  next
    case False
    then have q: "discoverLink X link c = queue ?l [] c" and nv: "?l \<notin> c_visited c"
      by (auto simp: discoverLink_def Let_def split: if_splits)
    show ?thesis
      using queue_count [of u ?l "[]" c] nv
      by (auto simp: q queue_visited split0_idem)
  qed
qed

lemma forEach_link_potential:
  "length (filter (\<lambda>t. split0 CHR ''#'' (url t) = u) (pending (c_queue (forEach_link X links c))))
     + (if u \<in> c_visited (forEach_link X links c) then 0 else 1) \<le>
   length (filter (\<lambda>t. split0 CHR ''#'' (url t) = u) (pending (c_queue c)))
     + (if u \<in> c_visited c then 0 else 1)"
  unfolding forEach_link_def
proof (induction links arbitrary: c)
  case Nil
  then show ?case by simp
next
  case (Cons l links)
  show ?case
    using Cons.IH [of "discoverLink X l c"] discoverLink_potential [of u X l c]
    by simp
qed

lemma enqueue_potential:
  "length (filter (\<lambda>t. split0 CHR ''#'' (url t) = u) (pending (c_queue (enqueue X ec c))))
     + (if u \<in> c_visited (enqueue X ec c) then 0 else 1) \<le>
   length (filter (\<lambda>t. split0 CHR ''#'' (url t) = u) (pending (c_queue c)))
     + (case ec of Queue v opts \<Rightarrow> if split0 CHR ''#'' v = u then 1 else 0 | Discover links \<Rightarrow> 0)
     + (if u \<in> c_visited c then 0 else 1)"
proof (cases ec)
  case (Queue v opts)
  then show ?thesis
    using queue_count [of u v opts c] by (auto simp: queue_visited)
next
  case (Discover links)
  then show ?thesis
    using forEach_link_potential [of u X links c] by simp
qed

lemma fold_enqueue_potential:
  "length (filter (\<lambda>t. split0 CHR ''#'' (url t) = u) (pending (c_queue (fold (enqueue X) ecs c))))
     + (if u \<in> c_visited (fold (enqueue X) ecs c) then 0 else 1) \<le>
   length (filter (\<lambda>t. split0 CHR ''#'' (url t) = u) (pending (c_queue c)))
     + length (filter (\<lambda>ec. case ec of Queue v opts \<Rightarrow> split0 CHR ''#'' v = u
                                | Discover links \<Rightarrow> False) ecs)
     + (if u \<in> c_visited c then 0 else 1)"
proof (induction ecs arbitrary: c)
  case Nil
  then show ?case by simp
next
  case (Cons ec ecs)
  show ?case
    using Cons.IH [of "enqueue X ec c"] enqueue_potential [of u X ec c]
    by (cases ec) (simp_all split: if_splits)
qed

text \<open>
  Claim C1 does not hold as stated: \<^verbatim>\<open>queue\<close> adds the URL to the visited set and pushes
  a task without looking at the visited set, so a second call of \<^verbatim>\<open>queue\<close> for a URL
  that is already in the visited set adds a second task for it.
\<close>

theorem queue_twice_counterexample:
  "''https://example.com/'' \<in> c_visited (queue ''https://example.com/'' [] (cli_Crawler
      \<lparr>a_url = ''https://example.com/'', a_screenshots = None, a_concurrency = None,
       a_username = None, a_password = None\<rparr> 4 [''example.com'']))
   \<and> map url (pending (c_queue (queue ''https://example.com/'' [] (queue ''https://example.com/'' [] (cli_Crawler
      \<lparr>a_url = ''https://example.com/'', a_screenshots = None, a_concurrency = None,
       a_username = None, a_password = None\<rparr> 4 [''example.com''])))))
     = [''https://example.com/'', ''https://example.com/'']"
  by (simp add: queue_def push_def cli_Crawler_def new_Crawler_def new_PriorityQueue_def)

text \<open>
  Claim C1, amended. Over any sequence of \<^verbatim>\<open>queue\<close> calls and link discoveries, from any
  state of the crawler, the number of pending tasks whose URL without its fragment is
  \<open>u\<close> grows by at most the number of \<^verbatim>\<open>queue\<close> calls made for \<open>u\<close>, plus one if
  \<open>u\<close> was not in the visited set at the start. So link discovery enqueues a URL at most
  once, and not at all once it is in the visited set; only the calls of \<^verbatim>\<open>queue\<close>
  itself are unconditional.
\<close>

theorem discovery_enqueues_once:
  "length (filter (\<lambda>t. split0 CHR ''#'' (url t) = u) (pending (c_queue (fold (enqueue X) ecs c)))) \<le>
   length (filter (\<lambda>t. split0 CHR ''#'' (url t) = u) (pending (c_queue c)))
     + length (filter (\<lambda>ec. case ec of Queue v opts \<Rightarrow> split0 CHR ''#'' v = u
                                | Discover links \<Rightarrow> False) ecs)
     + (if u \<in> c_visited c then 0 else 1)"
  using fold_enqueue_potential [of u X ecs c] by (simp split: if_splits)

theorem discovery_enqueues_once_witness:
  "length (filter (\<lambda>t. split0 CHR ''#'' (url t) = ''https://example.com/a'')
     (pending (c_queue (fold (enqueue (\<lambda>link ds. True))
        [Queue ''https://example.com/'' [],
         Discover [''https://example.com/a'', ''https://example.com/a#top'', ''https://example.com/''],
         Discover [''https://example.com/a'']]
        (new_Crawler \<lparr>o_domains = Some [''example.com''], o_screenshots = None,
                       o_blockList = None, o_maxConcurrency = None, o_formConfigs = None\<rparr>)))))
   \<le> 1"
  using discovery_enqueues_once
    [of "''https://example.com/a''" "\<lambda>link ds. True"
        "[Queue ''https://example.com/'' [],
          Discover [''https://example.com/a'', ''https://example.com/a#top'', ''https://example.com/''],
          Discover [''https://example.com/a'']]"
        "new_Crawler \<lparr>o_domains = Some [''example.com''], o_screenshots = None,
                       o_blockList = None, o_maxConcurrency = None, o_formConfigs = None\<rparr>"]
  by (simp add: new_Crawler_def new_PriorityQueue_def split0_def)

text \<open>
  \<^verbatim>\<open>queue\<close> stores the URL as it is given, with its fragment. A crawl seeded with a URL
  that has a fragment therefore enqueues the same URL without the fragment when an anchor
  leads to it.
\<close>

lemma seed_with_fragment_enqueued_again:
  "map url (pending (c_queue (fold (enqueue (\<lambda>link ds. True))
     [Queue ''https://example.com/#top'' [], Discover [''https://example.com/#nav'']]
     (new_Crawler \<lparr>o_domains = Some [''example.com''], o_screenshots = None,
                    o_blockList = None, o_maxConcurrency = None, o_formConfigs = None\<rparr>))))
   = [''https://example.com/#top'', ''https://example.com/'']"
  by (simp add: forEach_link_def discoverLink_def queue_def push_def new_Crawler_def Let_def
        new_PriorityQueue_def split0_def some_indexOf_def SKIPPED_RESOURCES_def indexOf_def)

lemma discoverLink_skipped:
  "link = [] \<or> some_indexOf SKIPPED_RESOURCES (split0 CHR ''#'' link) \<Longrightarrow> discoverLink X link c = c"
  by (auto simp: discoverLink_def Let_def)

text \<open>
  Claim C9. An anchor whose \<^verbatim>\<open>href\<close> is empty, or whose URL without its fragment
  contains one of \<^verbatim>\<open>SKIPPED_RESOURCES\<close>, changes nothing: no task is pushed and the
  visited set stays as it is, whatever \<^verbatim>\<open>isLinkAllowed\<close> answers and whatever has been
  visited. The anchors of a page with or without such an anchor give the same crawler.
\<close>

theorem denylisted_links_not_enqueued:
  assumes "link = [] \<or> some_indexOf SKIPPED_RESOURCES (split0 CHR ''#'' link)"
  shows "discoverLink X link c = c
         \<and> forEach_link X (before @ link # after) c = forEach_link X (before @ after) c"
  using assms by (simp add: forEach_link_def discoverLink_skipped)

theorem denylisted_links_not_enqueued_witness:
  "some_indexOf SKIPPED_RESOURCES (split0 CHR ''#'' ''https://example.com/analytics#top'')
   \<and> discoverLink (\<lambda>link ds. True) ''https://example.com/analytics#top''
        (new_Crawler \<lparr>o_domains = Some [''example.com''], o_screenshots = None,
                       o_blockList = None, o_maxConcurrency = None, o_formConfigs = None\<rparr>)
      = new_Crawler \<lparr>o_domains = Some [''example.com''], o_screenshots = None,
                      o_blockList = None, o_maxConcurrency = None, o_formConfigs = None\<rparr>
   \<and> forEach_link (\<lambda>link ds. True)
        ([''https://example.com/a''] @ '''' # [''https://example.com/b''])
        (new_Crawler \<lparr>o_domains = Some [''example.com''], o_screenshots = None,
                       o_blockList = None, o_maxConcurrency = None, o_formConfigs = None\<rparr>)
      = forEach_link (\<lambda>link ds. True)
        ([''https://example.com/a''] @ [''https://example.com/b''])
        (new_Crawler \<lparr>o_domains = Some [''example.com''], o_screenshots = None,
                       o_blockList = None, o_maxConcurrency = None, o_formConfigs = None\<rparr>)"
proof -
  have s: "some_indexOf SKIPPED_RESOURCES (split0 CHR ''#'' ''https://example.com/analytics#top'')"
    by (simp add: some_indexOf_def SKIPPED_RESOURCES_def split0_def indexOf_def)
  show ?thesis
    using s
      denylisted_links_not_enqueued
        [of "''https://example.com/analytics#top''" "\<lambda>link ds. True"
            "new_Crawler \<lparr>o_domains = Some [''example.com''], o_screenshots = None,
                       o_blockList = None, o_maxConcurrency = None, o_formConfigs = None\<rparr>"
            "[]" "[]"]
      denylisted_links_not_enqueued
        [of "''''" "\<lambda>link ds. True"
            "new_Crawler \<lparr>o_domains = Some [''example.com''], o_screenshots = None,
                       o_blockList = None, o_maxConcurrency = None, o_formConfigs = None\<rparr>"
            "[''https://example.com/a'']" "[''https://example.com/b'']"]
    by simp
qed

section \<open>Properties of the construction\<close>

text \<open>
  Claim C8 does not hold as stated: with one CPU, \<^verbatim>\<open>os.cpus().length - 1\<close> is \<open>0\<close>, which
  is falsy, so the constructor's \<^verbatim>\<open>options.maxConcurrency || 5\<close> gives the queue a
  ceiling of \<open>5\<close>.
\<close>

theorem default_concurrency_counterexample:
  "maxConcurrency (c_queue (cli_Crawler
      \<lparr>a_url = ''https://example.com/'', a_screenshots = None, a_concurrency = None,
       a_username = None, a_password = None\<rparr> 1 [''example.com''])) \<noteq> int 1 - 1"
  by (simp add: cli_Crawler_def new_Crawler_def new_PriorityQueue_def cli_maxConcurrency_def or_number_def)

text \<open>
  Claim C8, amended. When no concurrency is given on the command line, the ceiling of
  the queue is the number of CPUs minus one, except with one CPU, where it is \<open>5\<close>.
\<close>

theorem default_concurrency:
  assumes "a_concurrency a = None"
  shows "maxConcurrency (c_queue (cli_Crawler a ncpus allowedDomains)) =
           (if ncpus = 1 then 5 else int ncpus - 1)"
  using assms
  by (auto simp: cli_Crawler_def new_Crawler_def new_PriorityQueue_def cli_maxConcurrency_def or_number_def)

theorem default_concurrency_witness:
  "a_concurrency \<lparr>a_url = ''https://example.com/'', a_screenshots = None, a_concurrency = None,
                  a_username = None, a_password = None\<rparr> = None
   \<and> maxConcurrency (c_queue (cli_Crawler
        \<lparr>a_url = ''https://example.com/'', a_screenshots = None, a_concurrency = None,
         a_username = None, a_password = None\<rparr> 4 [''example.com''])) = 3
   \<and> maxConcurrency (c_queue (cli_Crawler
        \<lparr>a_url = ''https://example.com/'', a_screenshots = None, a_concurrency = None,
         a_username = None, a_password = None\<rparr> 1 [''example.com''])) = 5"
  using default_concurrency
      [of "\<lparr>a_url = ''https://example.com/'', a_screenshots = None, a_concurrency = None,
            a_username = None, a_password = None\<rparr>" 4 "[''example.com'']"]
    default_concurrency
      [of "\<lparr>a_url = ''https://example.com/'', a_screenshots = None, a_concurrency = None,
            a_username = None, a_password = None\<rparr>" 1 "[''example.com'']"]
  by simp

section \<open>Properties of post-load processing\<close>

lemma processPage_unfold:
  "processPage X pn ans k init w =
     (case processPage_step X pn (ans k) (or_url init (page_url (ans k))) w of
        Inl res \<Rightarrow> Some res
      | Inr w5 \<Rightarrow> processPage X pn ans (Suc k) None w5)"
  by (subst processPage.simps)
     (simp add: processPage_step_def Let_def split: prod.splits option.splits)

text \<open>
  Induction over the runs of \<^verbatim>\<open>_processPage\<close> on one page, for a call that returns or
  throws.
\<close>

lemma processPage_induct [consumes 1, case_names ends recurses]:
  assumes "processPage X pn ans k init w = Some y"
    and "\<And>k init w res.
           processPage_step X pn (ans k) (or_url init (page_url (ans k))) w = Inl res
           \<Longrightarrow> P k init w res"
    and "\<And>k init w w5 y.
           processPage_step X pn (ans k) (or_url init (page_url (ans k))) w = Inr w5
           \<Longrightarrow> P (Suc k) None w5 y \<Longrightarrow> P k init w y"
  shows "P k init w y"
proof -
  have "X' = X \<and> pn' = pn \<and> ans' = ans \<longrightarrow> P k init w y"
    if "processPage X' pn' ans' k init w = Some y" for X' pn' ans'
    using that
  proof (induction X' pn' ans' k init w y rule: processPage.raw_induct [rotated 1, consumes 1])
    case (1 f X' pn' ans' k init w y)
    show ?case
    proof (intro impI, elim conjE)
      assume eq: "X' = X" "pn' = pn" "ans' = ans"
      show "P k init w y"
      proof (cases "processPage_step X pn (ans k) (or_url init (page_url (ans k))) w")
        case (Inl res)
        with 1(2) eq have "res = y"
          by (simp add: processPage_step_def Let_def split: prod.splits option.splits)
        with Inl assms(2) show ?thesis by simp
      next
        case (Inr w5)
        with 1(2) eq have "f X pn ans (Suc k) None w5 = Some y"
          by (simp add: processPage_step_def Let_def split: prod.splits option.splits)
        from 1(1) [OF this] have "P (Suc k) None w5 y" by simp
        with Inr assms(3) show ?thesis by simp
      qed
    qed
  qed
  with assms(1) show ?thesis by simp
qed

lemma frame_refl [simp]: "frame w w"
  by (simp add: frame_def)

lemma frame_trans: "frame w w1 \<Longrightarrow> frame w1 w2 \<Longrightarrow> frame w w2"
  unfolding frame_def by (metis (no_types, lifting) prefix_order.order_trans subset_trans)

lemma frame_call [simp]: "frame w (call pc w)"
  by (simp add: frame_def call_def)

lemma self_call [simp]: "self (call pc w) = self w"
  by (simp add: call_def)

lemma submissions_call [simp]:
  "submissions (call pc w) = submissions w + (if pc = WaitForNavigation then 1 else 0)"
  by (simp add: submissions_def call_def)

lemma discoverLink_fields:
  "domains (discoverLink X l c) = domains c \<and> blockList (discoverLink X l c) = blockList c
   \<and> screenshots (discoverLink X l c) = screenshots c
   \<and> c_formConfigs (discoverLink X l c) = c_formConfigs c
   \<and> c_errors (discoverLink X l c) = c_errors c \<and> c_count (discoverLink X l c) = c_count c
   \<and> c_visited c \<subseteq> c_visited (discoverLink X l c)"
  by (auto simp: discoverLink_def queue_def Let_def)

lemma forEach_link_fields:
  "domains (forEach_link X ls c) = domains c \<and> blockList (forEach_link X ls c) = blockList c
   \<and> screenshots (forEach_link X ls c) = screenshots c
   \<and> c_formConfigs (forEach_link X ls c) = c_formConfigs c
   \<and> c_errors (forEach_link X ls c) = c_errors c \<and> c_count (forEach_link X ls c) = c_count c
   \<and> c_visited c \<subseteq> c_visited (forEach_link X ls c)"
  unfolding forEach_link_def
proof (induction ls arbitrary: c)
  case Nil
  then show ?case by simp
next
  case (Cons l ls)
  show ?case
    using Cons.IH [of "discoverLink X l c"] discoverLink_fields [of X l c]
    by auto
qed

lemma takeScreenshot_frame:
  "frame w (snd (takeScreenshot pn r u w))
   \<and> c_count (self (snd (takeScreenshot pn r u w))) = c_count (self w)
   \<and> submissions (snd (takeScreenshot pn r u w)) = submissions w"
  by (simp add: takeScreenshot_def split: option.splits sum.splits)

lemma discoverLinks_frame:
  "frame w (snd (discoverLinks X r w))
   \<and> c_count (self (snd (discoverLinks X r w))) = c_count (self w)
   \<and> submissions (snd (discoverLinks X r w)) = submissions w"
proof (cases "anchors r")
  case (Inl e)
  then show ?thesis by (simp add: discoverLinks_def)
next
  case (Inr links)
  then show ?thesis
    using forEach_link_fields [of X links "self w"]
    by (simp add: discoverLinks_def frame_def call_def submissions_def)
qed

lemma emulateScrolling_frame:
  "frame w (snd (emulateScrolling r w))
   \<and> c_count (self (snd (emulateScrolling r w))) = c_count (self w)
   \<and> submissions (snd (emulateScrolling r w)) = submissions w"
  by (simp add: emulateScrolling_def)

lemma checkAllCheckboxes_frame:
  "frame w (snd (checkAllCheckboxes r w))
   \<and> c_count (self (snd (checkAllCheckboxes r w))) = c_count (self w)
   \<and> submissions (snd (checkAllCheckboxes r w)) = submissions w"
  by (simp add: checkAllCheckboxes_def)

lemma fold_SetValue:
  "frame w (fold (\<lambda>(fieldName, v). call (SetValue fieldName v)) fs w)
   \<and> self (fold (\<lambda>(fieldName, v). call (SetValue fieldName v)) fs w) = self w
   \<and> submissions (fold (\<lambda>(fieldName, v). call (SetValue fieldName v)) fs w) = submissions w"
proof (induction fs arbitrary: w)
  case Nil
  then show ?case by simp
next
  case (Cons f fs)
  obtain n v where f: "f = (n, v)" by (cases f)
  show ?case
    using Cons.IH [of "call (SetValue n v) w"] frame_trans [OF frame_call [of w "SetValue n v"]]
    by (simp add: f)
qed

lemma submitForm_frame:
  "frame w (snd (submitForm fd r w))
   \<and> submissions (snd (submitForm fd r w)) = submissions w + 1
   \<and> c_count (self (snd (submitForm fd r w))) =
        c_count (self w) + (if fst (submitForm fd r w) = None then 1 else 0)
   \<and> fst (submitForm fd r w) = navigation_result r"
proof -
  let ?w1 = "fold (\<lambda>(fieldName, v). call (SetValue fieldName v)) (fc_fields fd) w"
  let ?w3 = "call WaitForNavigation (call (Click (fc_submitElement fd)) ?w1)"
  have "frame w ?w1" "self ?w1 = self w" "submissions ?w1 = submissions w"
    using fold_SetValue [of w "fc_fields fd"] by simp_all
  moreover have "frame ?w1 ?w3"
    by (rule frame_trans [OF frame_call frame_call])
  ultimately have 3: "frame w ?w3" "self ?w3 = self w" "submissions ?w3 = submissions w + 1"
    by (auto intro: frame_trans)
  have "frame ?w3 (?w3\<lparr>self := (self ?w3)\<lparr>c_count := c_count (self ?w3) + 1\<rparr>\<rparr>)"
    by (simp add: frame_def)
  with 3(1) have 4: "frame w (?w3\<lparr>self := (self ?w3)\<lparr>c_count := c_count (self ?w3) + 1\<rparr>\<rparr>)"
    by (rule frame_trans)
  have 5: "submissions (?w3\<lparr>self := (self ?w3)\<lparr>c_count := c_count (self ?w3) + 1\<rparr>\<rparr>) = submissions ?w3"
    by (simp add: submissions_def)
  show ?thesis
    using 3 4 5 by (cases "navigation_result r") (simp_all add: submitForm_def Let_def)
qed

text \<open>
  The three ways in which one run of the body ends: it throws; it returns, which it does
  only when no form configuration matches the URL; or it has submitted a form, counted the
  new page, and calls \<^verbatim>\<open>_processPage\<close> again.
\<close>

lemma processPage_step_cases [case_names threw returned recursed]:
  obtains
    (threw) e w' where
      "processPage_step X pn r u w = Inl (Some e, w')" "frame w w'"
      "frame (snd (takeScreenshot pn r u w)) w'"
  | (returned) w' where
      "processPage_step X pn r u w = Inl (None, w')" "frame w w'"
      "frame (snd (takeScreenshot pn r u w)) w'"
      "c_count (self w') = c_count (self w)" "submissions w' = submissions w"
      "find (\<lambda>x. fc_url x u) (c_formConfigs (self w)) = None"
  | (recursed) w' fd where
      "processPage_step X pn r u w = Inr w'" "frame w w'"
      "frame (snd (takeScreenshot pn r u w)) w'"
      "c_count (self w') = c_count (self w) + 1" "submissions w' = submissions w + 1"
      "find (\<lambda>x. fc_url x u) (c_formConfigs (self w)) = Some fd"
proof -
  obtain e1 w1 where 1: "takeScreenshot pn r u w = (e1, w1)" by fastforce
  obtain e2 w2 where 2: "discoverLinks X r w1 = (e2, w2)" by fastforce
  obtain e3 w3 where 3: "emulateScrolling r w2 = (e3, w3)" by fastforce
  obtain e4 w4 where 4: "checkAllCheckboxes r w3 = (e4, w4)" by fastforce
  have f1: "frame w w1" "c_count (self w1) = c_count (self w)" "submissions w1 = submissions w"
    using takeScreenshot_frame [of w pn r u] 1 by simp_all
  have g2: "frame w1 w2" "c_count (self w2) = c_count (self w1)" "submissions w2 = submissions w1"
    using discoverLinks_frame [of w1 X r] 2 by simp_all
  have "frame w2 w3" "c_count (self w3) = c_count (self w2)" "submissions w3 = submissions w2"
    using emulateScrolling_frame [of w2 r] 3 by simp_all
  with g2 have g3: "frame w1 w3" "c_count (self w3) = c_count (self w1)" "submissions w3 = submissions w1"
    by (auto intro: frame_trans)
  have "frame w3 w4" "c_count (self w4) = c_count (self w3)" "submissions w4 = submissions w3"
    using checkAllCheckboxes_frame [of w3 r] 4 by simp_all
  with g3 have g4: "frame w1 w4" "c_count (self w4) = c_count (self w1)" "submissions w4 = submissions w1"
    by (auto intro: frame_trans)
  have f2: "frame w w2" and f3: "frame w w3" and f4: "frame w w4"
    using f1(1) g2(1) g3(1) g4(1) by (auto intro: frame_trans)
  have c4: "c_count (self w4) = c_count (self w)" "submissions w4 = submissions w"
    using g4 f1 by simp_all
  have cf: "c_formConfigs (self w4) = c_formConfigs (self w)"
    using f4 by (simp add: frame_def)
  have s1: "snd (takeScreenshot pn r u w) = w1"
    using 1 by simp
  show thesis
  proof (cases e1)
    case (Some e)
    with 1 f1 threw [of e w1] show ?thesis by (simp add: processPage_step_def)
  next
    case n1: None
    show ?thesis
    proof (cases e2)
      case (Some e)
      with n1 1 2 f2 g2 threw [of e w2] show ?thesis by (simp add: processPage_step_def)
    next
      case n2: None
      show ?thesis
      proof (cases e3)
        case (Some e)
        with n1 n2 1 2 3 f3 g3 threw [of e w3] show ?thesis by (simp add: processPage_step_def)
      next
        case n3: None
        show ?thesis
        proof (cases e4)
          case (Some e)
          with n1 n2 n3 1 2 3 4 f4 g4 threw [of e w4] show ?thesis
            by (simp add: processPage_step_def)
        next
          case n4: None
          show ?thesis
          proof (cases "find (\<lambda>x. fc_url x u) (c_formConfigs (self w))")
            case None
            with n1 n2 n3 n4 1 2 3 4 f4 g4 c4 cf returned [of w4] show ?thesis
              by (simp add: processPage_step_def)
          next
            case (Some fd)
            obtain e5 w5 where 5: "submitForm fd r w4 = (e5, w5)" by fastforce
            have s: "frame w4 w5" "submissions w5 = submissions w4 + 1"
              "c_count (self w5) = c_count (self w4) + (if e5 = None then 1 else 0)"
              using submitForm_frame [of w4 fd r] 5 by simp_all
            with f4 g4 have f5: "frame w w5" "frame w1 w5" by (auto intro: frame_trans)
            show ?thesis
            proof (cases e5)
              case None
              with n1 n2 n3 n4 1 2 3 4 5 Some cf s c4 f5 recursed [of w5 fd] show ?thesis
                by (simp add: processPage_step_def)
            next
              case (Some e)
              with n1 n2 n3 n4 1 2 3 4 5 \<open>find _ _ = Some fd\<close> cf f5 threw [of e w5] show ?thesis
                by (simp add: processPage_step_def)
            qed
          qed
        qed
      qed
    qed
  qed
qed

lemma processPage_step_no_throw:
  assumes "screenshot_result r = None" "anchors r = Inr ls" "scroll_result r = None"
    "checkboxes_result r = None" "navigation_result r = None"
    and "screenshots (self w) = None \<or> pn u = Inr p"
  shows "processPage_step X pn r u w \<noteq> Inl (Some e, w')"
  using assms
  by (auto simp: processPage_step_def takeScreenshot_def discoverLinks_def emulateScrolling_def
        checkAllCheckboxes_def submitForm_def Let_def
      split: option.splits sum.splits prod.splits)

lemma processPage_frame:
  assumes "processPage X pn ans k init w = Some (e, w')"
  shows "frame w w'"
proof -
  have "frame w (snd y)" if "processPage X pn ans k init w = Some y" for y
    using that
  proof (induction rule: processPage_induct)
    case (ends k init w res)
    then show ?case
      by (cases rule: processPage_step_cases [of X pn "ans k" "or_url init (page_url (ans k))" w])
         auto
  next
    case (recurses k init w w5 y)
    then show ?case
      by (cases rule: processPage_step_cases [of X pn "ans k" "or_url init (page_url (ans k))" w])
         (auto intro: frame_trans)
  qed
  with assms show ?thesis by fastforce
qed

text \<open>
  If no call on the page throws and, after every submission, the URL of the page matches
  a form configuration again, \<^verbatim>\<open>_processPage\<close> never returns.
\<close>

lemma processPage_diverges:
  assumes ok: "\<And>j. screenshot_result (ans j) = None \<and> (\<exists>ls. anchors (ans j) = Inr ls)
                  \<and> scroll_result (ans j) = None \<and> checkboxes_result (ans j) = None
                  \<and> navigation_result (ans j) = None"
    and pn: "screenshots (self w) = None \<or> (\<forall>v. \<exists>p. pn v = Inr p)"
    and m0: "list_ex (\<lambda>x. fc_url x (or_url init (page_url (ans k)))) (c_formConfigs (self w))"
    and m: "\<And>j. k < j \<Longrightarrow> list_ex (\<lambda>x. fc_url x (page_url (ans j))) (c_formConfigs (self w))"
  shows "processPage X pn ans k init w = None"
proof (rule ccontr)
  assume "processPage X pn ans k init w \<noteq> None"
  then obtain y where "processPage X pn ans k init w = Some y" by blast
  then have "(screenshots (self w) = None \<or> (\<forall>v. \<exists>p. pn v = Inr p))
      \<and> list_ex (\<lambda>x. fc_url x (or_url init (page_url (ans k)))) (c_formConfigs (self w))
      \<and> (\<forall>j>k. list_ex (\<lambda>x. fc_url x (page_url (ans j))) (c_formConfigs (self w)))
      \<longrightarrow> False"
  proof (induction rule: processPage_induct)
    case (ends k init w res)
    show ?case
    proof (intro impI, elim conjE)
      assume a: "screenshots (self w) = None \<or> (\<forall>v. \<exists>p. pn v = Inr p)"
        "list_ex (\<lambda>x. fc_url x (or_url init (page_url (ans k)))) (c_formConfigs (self w))"
      let ?u = "or_url init (page_url (ans k))"
      obtain ls where ls: "anchors (ans k) = Inr ls" using ok by blast
      from a(1) obtain p where p: "screenshots (self w) = None \<or> pn ?u = Inr p" by blast
      have nt: "processPage_step X pn (ans k) ?u w \<noteq> Inl (Some e, w')" for e w'
        using processPage_step_no_throw [where r = "ans k" and ls = ls and w = w and pn = pn and u = ?u and p = p]
          ls p ok [of k] by blast
      from a(2) have f: "find (\<lambda>x. fc_url x ?u) (c_formConfigs (self w)) \<noteq> None"
        by (auto simp: find_None_iff list_ex_iff)
      show False
        using ends nt f
        by (cases rule: processPage_step_cases [of X pn "ans k" ?u w]) auto
    qed
  next
    case (recurses k init w w5 y)
    show ?case
    proof (intro impI, elim conjE)
      assume a: "screenshots (self w) = None \<or> (\<forall>v. \<exists>p. pn v = Inr p)"
        "\<forall>j>k. list_ex (\<lambda>x. fc_url x (page_url (ans j))) (c_formConfigs (self w))"
      have "frame w w5"
        using recurses(1)
        by (cases rule: processPage_step_cases [of X pn "ans k" "or_url init (page_url (ans k))" w])
           auto
      then have "screenshots (self w5) = screenshots (self w)"
        "c_formConfigs (self w5) = c_formConfigs (self w)"
        by (simp_all add: frame_def)
      with a recurses(2) show False
        by (simp add: or_url_def)
    qed
  qed
  with pn m0 m show False by blast
qed

text \<open>
  If no call on the page throws and the URL after the \<open>n\<close>-th submission is the first
  that matches no form configuration, \<^verbatim>\<open>_processPage\<close> returns after \<open>n\<close> submissions.
\<close>

lemma processPage_returns_after:
  assumes ok: "\<And>j. j \<le> n \<Longrightarrow> screenshot_result (ans (k + j)) = None \<and> (\<exists>ls. anchors (ans (k + j)) = Inr ls)
                  \<and> scroll_result (ans (k + j)) = None \<and> checkboxes_result (ans (k + j)) = None
                  \<and> navigation_result (ans (k + j)) = None"
    and pn: "screenshots (self w) = None \<or> (\<forall>v. \<exists>p. pn v = Inr p)"
    and m: "\<And>j. j < n \<Longrightarrow>
              list_ex (\<lambda>x. fc_url x (if j = 0 then or_url init (page_url (ans k)) else page_url (ans (k + j))))
                (c_formConfigs (self w))"
    and e: "\<not> list_ex (\<lambda>x. fc_url x (if n = 0 then or_url init (page_url (ans k)) else page_url (ans (k + n))))
                (c_formConfigs (self w))"
  shows "\<exists>w'. processPage X pn ans k init w = Some (None, w')
            \<and> submissions w' = submissions w + n \<and> c_count (self w') = c_count (self w) + n"
  using assms
proof (induction n arbitrary: k init w)
  case 0
  let ?u = "or_url init (page_url (ans k))"
  obtain ls where ls: "anchors (ans k) = Inr ls" using "0.prems"(1) [of 0] by auto
  from "0.prems"(2) obtain p where p: "screenshots (self w) = None \<or> pn ?u = Inr p" by blast
  have nt: "processPage_step X pn (ans k) ?u w \<noteq> Inl (Some e, w')" for e w'
    using processPage_step_no_throw [where r = "ans k" and ls = ls and w = w and pn = pn and u = ?u and p = p]
      ls p "0.prems"(1) [of 0] by simp
  have f: "find (\<lambda>x. fc_url x ?u) (c_formConfigs (self w)) = None"
    using "0.prems"(4) by (auto simp: find_None_iff list_ex_iff)
  show ?case
    using nt f
    by (cases rule: processPage_step_cases [of X pn "ans k" ?u w])
       (auto simp: processPage_unfold [of X pn ans k init w])
next
  case (Suc n)
  let ?u = "or_url init (page_url (ans k))"
  obtain ls where ls: "anchors (ans k) = Inr ls" using Suc.prems(1) [of 0] by auto
  from Suc.prems(2) obtain p where p: "screenshots (self w) = None \<or> pn ?u = Inr p" by blast
  have nt: "processPage_step X pn (ans k) ?u w \<noteq> Inl (Some e, w')" for e w'
    using processPage_step_no_throw [where r = "ans k" and ls = ls and w = w and pn = pn and u = ?u and p = p]
      ls p Suc.prems(1) [of 0] by simp
  have f: "find (\<lambda>x. fc_url x ?u) (c_formConfigs (self w)) \<noteq> None"
    using Suc.prems(3) [of 0] by (auto simp: find_None_iff list_ex_iff)
  from nt f obtain w5 where
    st: "processPage_step X pn (ans k) ?u w = Inr w5" and fr: "frame w w5"
    and c: "c_count (self w5) = c_count (self w) + 1" "submissions w5 = submissions w + 1"
    by (cases rule: processPage_step_cases [of X pn "ans k" ?u w]) auto
  from fr have same: "screenshots (self w5) = screenshots (self w)"
    "c_formConfigs (self w5) = c_formConfigs (self w)"
    by (simp_all add: frame_def)
  have "\<exists>w'. processPage X pn ans (Suc k) None w5 = Some (None, w')
            \<and> submissions w' = submissions w5 + n \<and> c_count (self w') = c_count (self w5) + n"
  proof (rule Suc.IH)
    fix j assume "j \<le> n"
    then show "screenshot_result (ans (Suc k + j)) = None \<and> (\<exists>ls. anchors (ans (Suc k + j)) = Inr ls)
                  \<and> scroll_result (ans (Suc k + j)) = None \<and> checkboxes_result (ans (Suc k + j)) = None
                  \<and> navigation_result (ans (Suc k + j)) = None"
      using Suc.prems(1) [of "Suc j"] by simp
  next
    show "screenshots (self w5) = None \<or> (\<forall>v. \<exists>p. pn v = Inr p)"
      using Suc.prems(2) same by simp
  next
    fix j assume "j < n"
    then show "list_ex (\<lambda>x. fc_url x (if j = 0 then or_url None (page_url (ans (Suc k))) else page_url (ans (Suc k + j))))
                (c_formConfigs (self w5))"
      using Suc.prems(3) [of "Suc j"] same by (auto simp: or_url_def)
  next
    show "\<not> list_ex (\<lambda>x. fc_url x (if n = 0 then or_url None (page_url (ans (Suc k))) else page_url (ans (Suc k + n))))
                (c_formConfigs (self w5))"
      using Suc.prems(4) same by (auto simp: or_url_def)
  qed
  then show ?case
    using st c by (auto simp: processPage_unfold [of X pn ans k init w])
qed

lemma processPage_returns_no_form:
  assumes "screenshot_result (ans k) = None" "anchors (ans k) = Inr ls"
    "scroll_result (ans k) = None" "checkboxes_result (ans k) = None"
    "navigation_result (ans k) = None"
    and "screenshots (self w) = None \<or> (\<forall>v. \<exists>p. pn v = Inr p)"
    and "\<not> list_ex (\<lambda>x. fc_url x (or_url init (page_url (ans k)))) (c_formConfigs (self w))"
  shows "\<exists>w'. processPage X pn ans k init w = Some (None, w')"
  using processPage_returns_after [of 0 ans k w pn init X] assms by auto

lemma login_re_login: "login_re ''https://example.com/auth/login/''"
  by code_simp

lemma login_re_home: "\<not> login_re ''https://example.com/''"
  by code_simp

text \<open>
  Claim C6 does not hold as stated: nothing guards the recursion. With the form
  configuration of cli.js, a login page that comes back at its own URL after each
  submission (a rejected password) and whose calls all succeed is submitted again and
  again: \<^verbatim>\<open>_processPage\<close> never returns.
\<close>

theorem login_loop_counterexample:
  "processPage (\<lambda>link ds. True) (\<lambda>u. Inr ''/auth/login/'')
     (\<lambda>k. \<lparr>page_url = ''https://example.com/auth/login/'', screenshot_result = None,
            anchors = Inr [], scroll_result = None, checkboxes_result = None,
            navigation_result = None\<rparr>)
     0 (Some ''https://example.com/auth/login/'')
     \<lparr>self = cli_Crawler \<lparr>a_url = ''https://example.com/auth/login/'', a_screenshots = None,
                           a_concurrency = None, a_username = Some ''admin'',
                           a_password = Some ''wrong''\<rparr> 4 [''example.com''],
      page_calls = [], decisions = []\<rparr> = None"
  by (rule processPage_diverges)
     (simp_all add: cli_Crawler_def new_Crawler_def or_null_def or_list_def or_url_def
        cli_formConfigs_def login_re_login)

text \<open>
  Claim C6, amended. The form is filled and submitted, and the resulting page processed
  again, once for each URL in a row that matches a form configuration: when no call on the
  page throws and the URL after the \<open>n\<close>-th submission is the first that matches no
  configuration, page processing returns after exactly \<open>n\<close> submissions, having counted
  \<open>n\<close> more pages. It recurses once when the URL after the first submission matches no
  configuration.
\<close>

theorem form_resubmitted_while_url_matches:
  assumes "\<And>j. j \<le> n \<Longrightarrow>
             screenshot_result (ans j) = None \<and> (\<exists>ls. anchors (ans j) = Inr ls)
             \<and> scroll_result (ans j) = None \<and> checkboxes_result (ans j) = None
             \<and> navigation_result (ans j) = None"
    and "screenshots (self w) = None \<or> (\<forall>v. \<exists>p. pn v = Inr p)"
    and "\<And>j. j < n \<Longrightarrow>
           list_ex (\<lambda>x. fc_url x (if j = 0 then or_url init (page_url (ans 0)) else page_url (ans j)))
             (c_formConfigs (self w))"
    and "\<not> list_ex (\<lambda>x. fc_url x (if n = 0 then or_url init (page_url (ans 0)) else page_url (ans n)))
             (c_formConfigs (self w))"
  shows "\<exists>w'. processPage X pn ans 0 init w = Some (None, w')
            \<and> submissions w' = submissions w + n \<and> c_count (self w') = c_count (self w) + n"
proof (rule processPage_returns_after [of n ans 0 w pn init X])
  fix j assume "j \<le> n"
  with assms(1) show "screenshot_result (ans (0 + j)) = None \<and> (\<exists>ls. anchors (ans (0 + j)) = Inr ls)
             \<and> scroll_result (ans (0 + j)) = None \<and> checkboxes_result (ans (0 + j)) = None
             \<and> navigation_result (ans (0 + j)) = None" by simp
next
  show "screenshots (self w) = None \<or> (\<forall>v. \<exists>p. pn v = Inr p)" by (rule assms(2))
next
  fix j assume "j < n"
  with assms(3) [of j]
  show "list_ex (\<lambda>x. fc_url x (if j = 0 then or_url init (page_url (ans 0)) else page_url (ans (0 + j))))
          (c_formConfigs (self w))" by (cases "j = 0") simp_all
next
  from assms(4)
  show "\<not> list_ex (\<lambda>x. fc_url x (if n = 0 then or_url init (page_url (ans 0)) else page_url (ans (0 + n))))
          (c_formConfigs (self w))" by (cases "n = 0") simp_all
qed

theorem form_resubmitted_while_url_matches_witness:
  "login_re ''https://example.com/auth/login/'' \<and> \<not> login_re ''https://example.com/''
   \<and> (\<exists>w'. processPage (\<lambda>link ds. True) (\<lambda>u. Inr ''/'')
          (\<lambda>k. \<lparr>page_url = (if k < 2 then ''https://example.com/auth/login/''
                              else ''https://example.com/''),
                 screenshot_result = None, anchors = Inr [], scroll_result = None,
                 checkboxes_result = None, navigation_result = None\<rparr>)
          0 (Some ''https://example.com/auth/login/'')
          \<lparr>self = cli_Crawler \<lparr>a_url = ''https://example.com/auth/login/'', a_screenshots = None,
                                a_concurrency = None, a_username = Some ''admin'',
                                a_password = Some ''wrong''\<rparr> 4 [''example.com''],
           page_calls = [], decisions = []\<rparr> = Some (None, w')
        \<and> submissions w' = 2 \<and> c_count (self w') = 2)"
proof -
  let ?ans = "\<lambda>k::nat. \<lparr>page_url = (if k < 2 then ''https://example.com/auth/login/''
                              else ''https://example.com/''),
                 screenshot_result = None, anchors = Inr [], scroll_result = None,
                 checkboxes_result = None, navigation_result = None\<rparr>"
  let ?w = "\<lparr>self = cli_Crawler \<lparr>a_url = ''https://example.com/auth/login/'', a_screenshots = None,
                                a_concurrency = None, a_username = Some ''admin'',
                                a_password = Some ''wrong''\<rparr> 4 [''example.com''],
           page_calls = [], decisions = []\<rparr>"
  let ?pn = "\<lambda>u::string. Inr ''/'' :: error + string"
  let ?init = "Some ''https://example.com/auth/login/''"
  have cf: "c_formConfigs (self ?w) =
              cli_formConfigs \<lparr>a_url = ''https://example.com/auth/login/'', a_screenshots = None,
                                a_concurrency = None, a_username = Some ''admin'',
                                a_password = Some ''wrong''\<rparr>"
    by (simp add: cli_Crawler_def new_Crawler_def or_list_def)
  have 1: "\<And>j. j \<le> 2 \<Longrightarrow>
             screenshot_result (?ans j) = None \<and> (\<exists>ls. anchors (?ans j) = Inr ls)
             \<and> scroll_result (?ans j) = None \<and> checkboxes_result (?ans j) = None
             \<and> navigation_result (?ans j) = None"
    by simp
  have 2: "screenshots (self ?w) = None \<or> (\<forall>v. \<exists>p. ?pn v = Inr p)"
    by simp
  have 3: "\<And>j. j < 2 \<Longrightarrow>
           list_ex (\<lambda>x. fc_url x (if j = 0 then or_url ?init (page_url (?ans 0)) else page_url (?ans j)))
             (c_formConfigs (self ?w))"
    unfolding cf by (simp add: cli_formConfigs_def or_url_def login_re_login)
  have 4: "\<not> list_ex (\<lambda>x. fc_url x (if (2::nat) = 0 then or_url ?init (page_url (?ans 0)) else page_url (?ans 2)))
             (c_formConfigs (self ?w))"
    unfolding cf by (simp add: cli_formConfigs_def login_re_home)
  have 5: "submissions ?w = 0" "c_count (self ?w) = 0"
    by (simp_all add: submissions_def cli_Crawler_def new_Crawler_def)
  from form_resubmitted_while_url_matches [of 2 ?ans ?w ?pn ?init "\<lambda>link ds. True", OF 1 2 3 4]
  show ?thesis
    unfolding 5 by (auto simp: login_re_login login_re_home)
qed

lemma screenshotFileName_eq:
  "screenshotFileName p =
     take 100 (map (\<lambda>c. if c = CHR ''.'' \<or> c = CHR ''/'' \<or> c = CHR '':'' \<or> c = CHR ''%'' \<or> c = CHR ''#''
                         then CHR ''_'' else c) p)"
  by (simp add: screenshotFileName_def Let_def)

text \<open>
  Claim C10. With screenshots enabled, each run of \<^verbatim>\<open>_processPage\<close> first takes a
  screenshot whose path is the screenshot directory, a slash, the file name and
  \<^verbatim>\<open>.jpeg\<close>. The file name is computed from the pathname of the URL alone: each of
  \<^verbatim>\<open>. / : % #\<close> becomes \<^verbatim>\<open>_\<close> and the result is cut to its first 100 characters.
\<close>

theorem screenshot_file_name:
  assumes "screenshots (self w) = Some dir" and "pn (or_url init (page_url (ans k))) = Inr p"
  shows "takeScreenshot pn (ans k) (or_url init (page_url (ans k))) w =
           (screenshot_result (ans k),
            call (Screenshot (dir @ ''/'' @ screenshotFileName p @ ''.jpeg'')) w)
         \<and> (processPage X pn ans k init w = Some (e, w') \<longrightarrow>
              prefix (page_calls w @ [Screenshot (dir @ ''/'' @ screenshotFileName p @ ''.jpeg'')])
                (page_calls w'))
         \<and> screenshotFileName p =
             take 100 (map (\<lambda>c. if c = CHR ''.'' \<or> c = CHR ''/'' \<or> c = CHR '':'' \<or> c = CHR ''%''
                                    \<or> c = CHR ''#'' then CHR ''_'' else c) p)
         \<and> length (screenshotFileName p) \<le> 100"
proof (intro conjI impI)
  let ?u = "or_url init (page_url (ans k))"
  let ?w1 = "call (Screenshot (dir @ ''/'' @ screenshotFileName p @ ''.jpeg'')) w"
  show ts: "takeScreenshot pn (ans k) ?u w = (screenshot_result (ans k), ?w1)"
    using assms by (simp add: takeScreenshot_def)
  show "screenshotFileName p =
             take 100 (map (\<lambda>c. if c = CHR ''.'' \<or> c = CHR ''/'' \<or> c = CHR '':'' \<or> c = CHR ''%''
                                    \<or> c = CHR ''#'' then CHR ''_'' else c) p)"
    by (rule screenshotFileName_eq)
  show "length (screenshotFileName p) \<le> 100"
    by (simp add: screenshotFileName_eq)
  assume r: "processPage X pn ans k init w = Some (e, w')"
  have "frame ?w1 w'"
  proof (cases rule: processPage_step_cases [of X pn "ans k" ?u w])
    case (threw e' w'')
    with r ts show ?thesis by (simp add: processPage_unfold [of X pn ans k init w])
  next
    case (returned w'')
    with r ts show ?thesis by (simp add: processPage_unfold [of X pn ans k init w])
  next
    case (recursed w'' fd)
    with r have "processPage X pn ans (Suc k) None w'' = Some (e, w')"
      by (simp add: processPage_unfold [of X pn ans k init w])
    then have "frame w'' w'" by (rule processPage_frame)
    with recursed(3) ts show ?thesis by (auto intro: frame_trans)
  qed
  then show "prefix (page_calls w @ [Screenshot (dir @ ''/'' @ screenshotFileName p @ ''.jpeg'')])
                (page_calls w')"
    by (simp add: frame_def call_def)
qed

theorem screenshot_file_name_witness:
  "takeScreenshot (\<lambda>u. Inr ''/docs/v1.2/a%20b:c'')
     \<lparr>page_url = ''https://example.com/docs/v1.2/a%20b:c?x=1'', screenshot_result = None,
      anchors = Inr [], scroll_result = None, checkboxes_result = None, navigation_result = None\<rparr>
     ''https://example.com/docs/v1.2/a%20b:c?x=1''
     \<lparr>self = new_Crawler \<lparr>o_domains = Some [''example.com''], o_screenshots = Some ''shots'',
                           o_blockList = None, o_maxConcurrency = None, o_formConfigs = None\<rparr>,
      page_calls = [], decisions = []\<rparr>
   = (None,
      \<lparr>self = new_Crawler \<lparr>o_domains = Some [''example.com''], o_screenshots = Some ''shots'',
                           o_blockList = None, o_maxConcurrency = None, o_formConfigs = None\<rparr>,
       page_calls = [Screenshot ''shots/_docs_v1_2_a_20b_c.jpeg''], decisions = []\<rparr>)"
  using screenshot_file_name
    [of "\<lparr>self = new_Crawler \<lparr>o_domains = Some [''example.com''], o_screenshots = Some ''shots'',
                           o_blockList = None, o_maxConcurrency = None, o_formConfigs = None\<rparr>,
          page_calls = [], decisions = []\<rparr>"
        "''shots''" "\<lambda>u. Inr ''/docs/v1.2/a%20b:c''"
        "Some ''https://example.com/docs/v1.2/a%20b:c?x=1''"
        "\<lambda>k. \<lparr>page_url = ''https://example.com/docs/v1.2/a%20b:c?x=1'', screenshot_result = None,
      anchors = Inr [], scroll_result = None, checkboxes_result = None, navigation_result = None\<rparr>"
        0 "''/docs/v1.2/a%20b:c''", THEN conjunct1]
  by (simp add: new_Crawler_def or_null_def or_url_def screenshotFileName_eq call_def)

section \<open>Properties of one task\<close>

lemma intercept_eq:
  "intercept X rs s w =
     (snd (onRequests X (self w) rs s),
      w\<lparr>decisions := decisions w @ fst (onRequests X (self w) rs s)\<rparr>)"
  by (simp add: intercept_def split_beta)

text \<open>A navigation error that is not a timeout: the error is recorded and the page closed.\<close>

lemma request_error:
  assumes "goto_result env = Some (Error m)"
  shows "request X pn env u w =
           Some \<lparr>self = (self w)\<lparr>c_errors := c_errors (self w) @ [(u, Error m)],
                                c_count := c_count (self w) + 1\<rparr>,
                 page_calls = page_calls w @ [Goto u, Close],
                 decisions = decisions w @ fst (onRequests X (self w) (nav_requests env) new_session)\<rparr>"
proof -
  have "onRequests X ((self w)\<lparr>c_count := Suc (c_count (self w))\<rparr>) (nav_requests env) new_session
          = onRequests X (self w) (nav_requests env) new_session"
    by (rule onRequests_crawler) simp_all
  then show ?thesis
    using assms by (simp add: request_def intercept_eq Let_def call_def push_error_def)
qed

text \<open>
  A navigation that succeeds or times out: the task goes on with the second
  \<^verbatim>\<open>try\<close> block, in a world where the decisions on all its requests have been made.
\<close>

lemma request_continues:
  assumes "goto_result env = None \<or> goto_result env = Some TimeoutError"
  obtains w3 where
    "request X pn env u w = postLoad X pn env u w3"
    "page_calls w3 = page_calls w @ [Goto u]"
    "c_errors (self w3) =
       c_errors (self w) @ (if goto_result env = None then [] else [(u, TimeoutError)])"
    "decisions w3 =
       decisions w @ fst (onRequests X (self w) (nav_requests env) new_session)
         @ fst (onRequests X (self w) (post_requests env)
                 ((snd (onRequests X (self w) (nav_requests env) new_session))
                    \<lparr>hasTimedOut := (goto_result env = Some TimeoutError)\<rparr>))"
    "domains (self w3) = domains (self w)" "blockList (self w3) = blockList (self w)"
    "screenshots (self w3) = screenshots (self w)"
    "c_formConfigs (self w3) = c_formConfigs (self w)"
    "c_visited (self w3) = c_visited (self w)" "c_queue (self w3) = c_queue (self w)"
    "c_count (self w3) = c_count (self w) + 1"
proof -
  let ?c1 = "(self w)\<lparr>c_count := c_count (self w) + 1\<rparr>"
  let ?s1 = "snd (onRequests X (self w) (nav_requests env) new_session)"
  have n: "onRequests X ((self w)\<lparr>c_count := k\<rparr>) rs s = onRequests X (self w) rs s" for rs s k
    by (rule onRequests_crawler) simp_all
  have t: "onRequests X ((self w)\<lparr>c_count := k, c_errors := es\<rparr>) rs s = onRequests X (self w) rs s"
    for rs s es k
    by (rule onRequests_crawler) simp_all
  have f: "?s1\<lparr>hasTimedOut := False\<rparr> = ?s1"
    using onRequests_hasTimedOut [of X "self w" "nav_requests env" new_session]
    by (simp add: new_session_def)
  let ?w1 = "call (Goto u) (w\<lparr>self := (self w)\<lparr>c_count := c_count (self w) + 1\<rparr>\<rparr>)"
  let ?i1 = "intercept X (nav_requests env) new_session ?w1"
  from assms show thesis
  proof
    assume g: "goto_result env = None"
    let ?w3 = "snd (intercept X (post_requests env) (fst ?i1) (snd ?i1))"
    have "request X pn env u w = postLoad X pn env u ?w3"
      by (simp add: g request_def Let_def split_beta)
    then show thesis
      by (rule that) (simp_all add: g f intercept_eq call_def n)
  next
    assume g: "goto_result env = Some TimeoutError"
    let ?w3 = "snd (intercept X (post_requests env) ((fst ?i1)\<lparr>hasTimedOut := True\<rparr>)
                     (push_error u TimeoutError (snd ?i1)))"
    have "request X pn env u w = postLoad X pn env u ?w3"
      by (simp add: g request_def Let_def split_beta)
    then show thesis
      by (rule that) (simp_all add: g intercept_eq call_def push_error_def n t)
  qed
qed

lemma postLoad_result:
  assumes "postLoad X pn env u w = Some w'"
  shows "(\<exists>cs. page_calls w' = page_calls w @ SetViewport # cs @ [Close])
         \<and> decisions w' = decisions w
         \<and> (\<exists>es. c_errors (self w') = c_errors (self w) @ es)"
proof (cases "viewport_result env")
  case (Some e)
  with assms have "w' = call Close (call Close (push_error u e (call SetViewport w)))"
    by (simp add: postLoad_def)
  then have "page_calls w' = page_calls w @ SetViewport # [Close] @ [Close]"
    "decisions w' = decisions w" "c_errors (self w') = c_errors (self w) @ [(u, e)]"
    by (simp_all add: call_def push_error_def)
  then show ?thesis by blast
next
  case None
  with assms obtain e w2 where
    p: "processPage X pn (rounds env) 0 (Some u) (call SetViewport w) = Some (e, w2)"
    by (auto simp: postLoad_def split: option.splits)
  from processPage_frame [OF p] obtain zs where
    2: "page_calls w2 = page_calls w @ SetViewport # zs" "decisions w2 = decisions w"
      "c_errors (self w2) = c_errors (self w)"
    by (auto simp: frame_def call_def prefix_def)
  show ?thesis
  proof (cases e)
    case None
    with assms p \<open>viewport_result env = None\<close> have "w' = call Close w2"
      by (simp add: postLoad_def)
    with 2 have "page_calls w' = page_calls w @ SetViewport # zs @ [Close]"
      "decisions w' = decisions w" "c_errors (self w') = c_errors (self w) @ []"
      by (simp_all add: call_def)
    then show ?thesis by blast
  next
    case (Some err)
    with assms p \<open>viewport_result env = None\<close>
    have "w' = call Close (call Close (push_error u err w2))"
      by (simp add: postLoad_def)
    with 2 have "page_calls w' = page_calls w @ SetViewport # (zs @ [Close]) @ [Close]"
      "decisions w' = decisions w" "c_errors (self w') = c_errors (self w) @ [(u, err)]"
      by (simp_all add: call_def push_error_def)
    then show ?thesis by blast
  qed
qed

lemma postLoad_returns:
  assumes "viewport_result env \<noteq> None
           \<or> processPage X pn (rounds env) 0 (Some u) (call SetViewport w) \<noteq> None"
  shows "\<exists>w'. postLoad X pn env u w = Some w'"
  using assms by (auto simp: postLoad_def Let_def split: option.splits prod.splits)

lemma processPage_throws_at_anchors:
  assumes "screenshots (self w) = None" "anchors (ans k) = Inl e"
  shows "processPage X pn ans k init w = Some (Some e, call QueryAnchors w)"
  using assms
  by (simp add: processPage_unfold [of X pn ans k init w] processPage_step_def
        takeScreenshot_def discoverLinks_def)

lemma request_returns:
  assumes "\<And>w3. screenshots (self w3) = screenshots (self w) \<Longrightarrow>
                 c_formConfigs (self w3) = c_formConfigs (self w) \<Longrightarrow>
                 processPage X pn (rounds env) 0 (Some u) (call SetViewport w3) \<noteq> None"
  shows "\<exists>w'. request X pn env u w = Some w'"
proof (cases "goto_result env = None \<or> goto_result env = Some TimeoutError")
  case True
  then obtain w3 where 3: "request X pn env u w = postLoad X pn env u w3"
    "screenshots (self w3) = screenshots (self w)"
    "c_formConfigs (self w3) = c_formConfigs (self w)"
    by (rule request_continues [of env X pn u w]) blast
  from assms [OF 3(2,3)] postLoad_returns [of env X pn u w3] 3(1) show ?thesis by simp
next
  case False
  then obtain m where m: "goto_result env = Some (Error m)"
    by (cases "goto_result env") (auto intro: error.exhaust)
  from request_error [OF this, of X pn u w] show ?thesis by simp
qed

lemma request_decisions:
  assumes "request X pn env u w = Some w'"
  shows "decisions w' =
           decisions w @ fst (onRequests X (self w) (nav_requests env) new_session)
             @ (if goto_result env = None \<or> goto_result env = Some TimeoutError
                then fst (onRequests X (self w) (post_requests env)
                       ((snd (onRequests X (self w) (nav_requests env) new_session))
                          \<lparr>hasTimedOut := (goto_result env = Some TimeoutError)\<rparr>))
                else [])"
proof (cases "goto_result env = None \<or> goto_result env = Some TimeoutError")
  case True
  then obtain w3 where 3: "request X pn env u w = postLoad X pn env u w3"
    "decisions w3 =
       decisions w @ fst (onRequests X (self w) (nav_requests env) new_session)
         @ fst (onRequests X (self w) (post_requests env)
                 ((snd (onRequests X (self w) (nav_requests env) new_session))
                    \<lparr>hasTimedOut := (goto_result env = Some TimeoutError)\<rparr>))"
    by (rule request_continues [of env X pn u w]) blast
  with assms have "postLoad X pn env u w3 = Some w'" by simp
  from postLoad_result [OF this] have "decisions w' = decisions w3" by simp
  with 3(2) True show ?thesis by simp
next
  case False
  then obtain m where m: "goto_result env = Some (Error m)"
    by (cases "goto_result env") (auto intro: error.exhaust)
  from request_error [OF this, of X pn u w] assms False show ?thesis by auto
qed

text \<open>
  Claim C3. First part: take a request \<open>r\<close> that is not to a Sentry prefix, made after
  the requests \<open>rs1\<close> and \<open>rs2\<close> of the same page on a session that started as
  \<open>new_session\<close>, with \<open>b\<close> saying whether the navigation timed out in between. If the
  page has not timed out and fewer than five of the earlier requests had the URL of \<open>r\<close>
  (query and fragment cut off), \<open>r\<close> is continued unless one of the later rules blocks
  it; from the sixth request to that URL on, \<open>r\<close> is aborted. The other parts: every call
  of \<^verbatim>\<open>_request\<close> starts from \<open>new_session\<close>, whatever happened before and whether or
  not the call returns. When the navigation succeeds or times out, the task goes on with
  the second \<^verbatim>\<open>try\<close> block in a world whose new decisions are those of the handler run
  from \<open>new_session\<close> on the task's own requests; when it fails with another error, the
  task returns with the decisions of the handler run from \<open>new_session\<close> on the requests
  of the navigation; and whenever the task returns, these are its decisions.
\<close>

theorem retry_ceiling:
  "(\<not> isSentryResource (req_url r) \<longrightarrow>
      fst (onRequest X c r
            (snd (onRequests X c rs2
                   ((snd (onRequests X c rs1 new_session))\<lparr>hasTimedOut := b\<rparr>)))) =
        (if b then Abort
         else if 5 \<le> length (filter (\<lambda>q. requestUrl q = requestUrl r) (rs1 @ rs2)) then Abort
         else if resourceType r \<in> set BLOCKED_RESOURCE_TYPES
                 \<or> some_indexOf SKIPPED_RESOURCES (requestUrl r)
                 \<or> some_indexOf (blockList c) (requestUrl r)
                 \<or> (resourceType r = ''document'' \<and> \<not> X (requestUrl r) (domains c))
           then Abort
         else Continue))
   \<and> (goto_result env = None \<or> goto_result env = Some TimeoutError \<longrightarrow>
        (\<exists>w3. request X pn env u w = postLoad X pn env u w3
           \<and> decisions w3 =
               decisions w @ fst (onRequests X (self w) (nav_requests env) new_session)
                 @ fst (onRequests X (self w) (post_requests env)
                         ((snd (onRequests X (self w) (nav_requests env) new_session))
                            \<lparr>hasTimedOut := (goto_result env = Some TimeoutError)\<rparr>))))
   \<and> (goto_result env = Some (Error m) \<longrightarrow>
        (\<exists>w'. request X pn env u w = Some w'
           \<and> decisions w' =
               decisions w @ fst (onRequests X (self w) (nav_requests env) new_session)))
   \<and> (request X pn env u w = Some w' \<longrightarrow>
        decisions w' =
          decisions w @ fst (onRequests X (self w) (nav_requests env) new_session)
            @ (if goto_result env = None \<or> goto_result env = Some TimeoutError
               then fst (onRequests X (self w) (post_requests env)
                      ((snd (onRequests X (self w) (nav_requests env) new_session))
                         \<lparr>hasTimedOut := (goto_result env = Some TimeoutError)\<rparr>))
               else []))"
proof (intro conjI impI)
  assume ns: "\<not> isSentryResource (req_url r)"
  let ?s = "snd (onRequests X c rs2 ((snd (onRequests X c rs1 new_session))\<lparr>hasTimedOut := b\<rparr>))"
  have t: "hasTimedOut ?s = b"
    by (simp add: onRequests_hasTimedOut)
  have n: "attempts_next ?s (requestUrl r) =
             1 + length (filter (\<lambda>q. requestUrl q = requestUrl r) (rs1 @ rs2))"
    by (simp add: onRequests_attempts_next)
  have "\<not> isSentryResource (requestUrl r)"
    using ns by (simp add: isSentryResource_requestUrl)
  then show "fst (onRequest X c r ?s) =
        (if b then Abort
         else if 5 \<le> length (filter (\<lambda>q. requestUrl q = requestUrl r) (rs1 @ rs2)) then Abort
         else if resourceType r \<in> set BLOCKED_RESOURCE_TYPES
                 \<or> some_indexOf SKIPPED_RESOURCES (requestUrl r)
                 \<or> some_indexOf (blockList c) (requestUrl r)
                 \<or> (resourceType r = ''document'' \<and> \<not> X (requestUrl r) (domains c))
           then Abort
         else Continue)"
    unfolding onRequest_fst t n by auto
next
  assume "goto_result env = None \<or> goto_result env = Some TimeoutError"
  then obtain w3 where "request X pn env u w = postLoad X pn env u w3"
    "decisions w3 =
       decisions w @ fst (onRequests X (self w) (nav_requests env) new_session)
         @ fst (onRequests X (self w) (post_requests env)
                 ((snd (onRequests X (self w) (nav_requests env) new_session))
                    \<lparr>hasTimedOut := (goto_result env = Some TimeoutError)\<rparr>))"
    by (rule request_continues [of env X pn u w]) blast
  then show "\<exists>w3. request X pn env u w = postLoad X pn env u w3
           \<and> decisions w3 =
               decisions w @ fst (onRequests X (self w) (nav_requests env) new_session)
                 @ fst (onRequests X (self w) (post_requests env)
                         ((snd (onRequests X (self w) (nav_requests env) new_session))
                            \<lparr>hasTimedOut := (goto_result env = Some TimeoutError)\<rparr>))"
    by blast
next
  assume "goto_result env = Some (Error m)"
  from request_error [OF this, of X pn u w]
  show "\<exists>w'. request X pn env u w = Some w'
           \<and> decisions w' =
               decisions w @ fst (onRequests X (self w) (nav_requests env) new_session)"
    by simp
next
  assume "request X pn env u w = Some w'"
  then show "decisions w' =
          decisions w @ fst (onRequests X (self w) (nav_requests env) new_session)
            @ (if goto_result env = None \<or> goto_result env = Some TimeoutError
               then fst (onRequests X (self w) (post_requests env)
                      ((snd (onRequests X (self w) (nav_requests env) new_session))
                         \<lparr>hasTimedOut := (goto_result env = Some TimeoutError)\<rparr>))
               else [])"
    by (rule request_decisions)
qed

theorem retry_ceiling_witness:
  "\<not> isSentryResource ''https://example.com/app.js?v=2''
   \<and> fst (onRequest (\<lambda>link ds. True)
           (new_Crawler \<lparr>o_domains = Some [''example.com''], o_screenshots = None,
                          o_blockList = None, o_maxConcurrency = None, o_formConfigs = None\<rparr>)
           \<lparr>req_url = ''https://example.com/app.js?v=2'', resourceType = ''script''\<rparr>
           (snd (onRequests (\<lambda>link ds. True)
                  (new_Crawler \<lparr>o_domains = Some [''example.com''], o_screenshots = None,
                          o_blockList = None, o_maxConcurrency = None, o_formConfigs = None\<rparr>)
                  []
                  ((snd (onRequests (\<lambda>link ds. True)
                          (new_Crawler \<lparr>o_domains = Some [''example.com''], o_screenshots = None,
                             o_blockList = None, o_maxConcurrency = None, o_formConfigs = None\<rparr>)
                          (replicate 4 \<lparr>req_url = ''https://example.com/app.js?v=1'',
                                        resourceType = ''script''\<rparr>)
                          new_session))\<lparr>hasTimedOut := False\<rparr>)))) = Continue
   \<and> fst (onRequest (\<lambda>link ds. True)
           (new_Crawler \<lparr>o_domains = Some [''example.com''], o_screenshots = None,
                          o_blockList = None, o_maxConcurrency = None, o_formConfigs = None\<rparr>)
           \<lparr>req_url = ''https://example.com/app.js?v=2'', resourceType = ''script''\<rparr>
           (snd (onRequests (\<lambda>link ds. True)
                  (new_Crawler \<lparr>o_domains = Some [''example.com''], o_screenshots = None,
                          o_blockList = None, o_maxConcurrency = None, o_formConfigs = None\<rparr>)
                  []
                  ((snd (onRequests (\<lambda>link ds. True)
                          (new_Crawler \<lparr>o_domains = Some [''example.com''], o_screenshots = None,
                             o_blockList = None, o_maxConcurrency = None, o_formConfigs = None\<rparr>)
                          (replicate 5 \<lparr>req_url = ''https://example.com/app.js?v=1'',
                                        resourceType = ''script''\<rparr>)
                          new_session))\<lparr>hasTimedOut := False\<rparr>)))) = Abort
   \<and> (\<exists>w3. request (\<lambda>link ds. True) (\<lambda>u. Inr ''/'')
          \<lparr>nav_requests = [\<lparr>req_url = ''https://example.com/app.js?v=1'', resourceType = ''script''\<rparr>, \<lparr>req_url = ''https://example.com/app.js?v=1'', resourceType = ''script''\<rparr>,
                           \<lparr>req_url = ''https://example.com/app.js?v=1'', resourceType = ''script''\<rparr>, \<lparr>req_url = ''https://example.com/app.js?v=1'', resourceType = ''script''\<rparr>,
                           \<lparr>req_url = ''https://example.com/app.js?v=1'', resourceType = ''script''\<rparr>],
           goto_result = None,
           post_requests = [\<lparr>req_url = ''https://example.com/app.js?v=2'', resourceType = ''script''\<rparr>],
           viewport_result = None,
           rounds = (\<lambda>k. \<lparr>page_url = ''https://example.com/'', screenshot_result = None,
                           anchors = Inr [], scroll_result = None, checkboxes_result = None,
                           navigation_result = None\<rparr>)\<rparr>
          ''https://example.com/''
          \<lparr>self = (new_Crawler \<lparr>o_domains = Some [''example.com''], o_screenshots = None,
                          o_blockList = None, o_maxConcurrency = None, o_formConfigs = None\<rparr>),
           page_calls = [], decisions = []\<rparr>
        = postLoad (\<lambda>link ds. True) (\<lambda>u. Inr ''/'')
          \<lparr>nav_requests = [\<lparr>req_url = ''https://example.com/app.js?v=1'', resourceType = ''script''\<rparr>, \<lparr>req_url = ''https://example.com/app.js?v=1'', resourceType = ''script''\<rparr>,
                           \<lparr>req_url = ''https://example.com/app.js?v=1'', resourceType = ''script''\<rparr>, \<lparr>req_url = ''https://example.com/app.js?v=1'', resourceType = ''script''\<rparr>,
                           \<lparr>req_url = ''https://example.com/app.js?v=1'', resourceType = ''script''\<rparr>],
           goto_result = None,
           post_requests = [\<lparr>req_url = ''https://example.com/app.js?v=2'', resourceType = ''script''\<rparr>],
           viewport_result = None,
           rounds = (\<lambda>k. \<lparr>page_url = ''https://example.com/'', screenshot_result = None,
                           anchors = Inr [], scroll_result = None, checkboxes_result = None,
                           navigation_result = None\<rparr>)\<rparr>
          ''https://example.com/'' w3
      \<and> decisions w3 = [Continue, Continue, Continue, Continue, Continue, Abort])
   \<and> (\<exists>w'. request (\<lambda>link ds. True) (\<lambda>u. Inr ''/'')
          \<lparr>nav_requests = [\<lparr>req_url = ''https://example.com/app.js?v=1'', resourceType = ''script''\<rparr>],
           goto_result = Some (Error ''net::ERR_CONNECTION_REFUSED''),
           post_requests = [],
           viewport_result = None,
           rounds = (\<lambda>k. \<lparr>page_url = ''https://example.com/'', screenshot_result = None,
                           anchors = Inr [], scroll_result = None, checkboxes_result = None,
                           navigation_result = None\<rparr>)\<rparr>
          ''https://example.com/''
          \<lparr>self = (new_Crawler \<lparr>o_domains = Some [''example.com''], o_screenshots = None,
                          o_blockList = None, o_maxConcurrency = None, o_formConfigs = None\<rparr>),
           page_calls = [], decisions = []\<rparr> = Some w'
      \<and> decisions w' = [Continue])"
proof -
  let ?c = "new_Crawler \<lparr>o_domains = Some [''example.com''], o_screenshots = None,
              o_blockList = None, o_maxConcurrency = None, o_formConfigs = None\<rparr>"
  let ?r = "\<lparr>req_url = ''https://example.com/app.js?v=2'', resourceType = ''script''\<rparr>"
  let ?q = "\<lparr>req_url = ''https://example.com/app.js?v=1'', resourceType = ''script''\<rparr>"
  have ns: "\<not> isSentryResource ''https://example.com/app.js?v=2''"
    by (simp add: isSentryResource_iff)
  have u: "requestUrl ?q = requestUrl ?r" "requestUrl ?r = ''https://example.com/app.js''"
    by (simp_all add: requestUrl_def split0_def)
  have o: "resourceType ?r \<notin> set BLOCKED_RESOURCE_TYPES"
    "\<not> some_indexOf SKIPPED_RESOURCES ''https://example.com/app.js''"
    "\<not> some_indexOf (blockList ?c) ''https://example.com/app.js''"
    by (simp_all add: BLOCKED_RESOURCE_TYPES_def SKIPPED_RESOURCES_def some_indexOf_def
          indexOf_def new_Crawler_def or_list_def)
  let ?X = "\<lambda>(link::string) (ds::string list). True"
  let ?pn = "\<lambda>u::string. Inr ''/'' :: error + string"
  let ?env = "\<lparr>nav_requests = [\<lparr>req_url = ''https://example.com/app.js?v=1'', resourceType = ''script''\<rparr>, \<lparr>req_url = ''https://example.com/app.js?v=1'', resourceType = ''script''\<rparr>,
                           \<lparr>req_url = ''https://example.com/app.js?v=1'', resourceType = ''script''\<rparr>, \<lparr>req_url = ''https://example.com/app.js?v=1'', resourceType = ''script''\<rparr>,
                           \<lparr>req_url = ''https://example.com/app.js?v=1'', resourceType = ''script''\<rparr>],
           goto_result = None,
           post_requests = [\<lparr>req_url = ''https://example.com/app.js?v=2'', resourceType = ''script''\<rparr>],
           viewport_result = None,
           rounds = (\<lambda>k. \<lparr>page_url = ''https://example.com/'', screenshot_result = None,
                           anchors = Inr [], scroll_result = None, checkboxes_result = None,
                           navigation_result = None\<rparr>)\<rparr>"
  let ?envE = "\<lparr>nav_requests = [\<lparr>req_url = ''https://example.com/app.js?v=1'', resourceType = ''script''\<rparr>],
           goto_result = Some (Error ''net::ERR_CONNECTION_REFUSED''),
           post_requests = [],
           viewport_result = None,
           rounds = (\<lambda>k. \<lparr>page_url = ''https://example.com/'', screenshot_result = None,
                           anchors = Inr [], scroll_result = None, checkboxes_result = None,
                           navigation_result = None\<rparr>)\<rparr>"
  let ?w = "\<lparr>self = (new_Crawler \<lparr>o_domains = Some [''example.com''], o_screenshots = None,
                          o_blockList = None, o_maxConcurrency = None, o_formConfigs = None\<rparr>),
           page_calls = [], decisions = []\<rparr>"
  have d: "fst (onRequest ?X ?c ?q s) =
             (if hasTimedOut s \<or> 5 < attempts_next s ''https://example.com/app.js'' then Abort
              else Continue)"
    "fst (onRequest ?X ?c ?r s) =
             (if hasTimedOut s \<or> 5 < attempts_next s ''https://example.com/app.js'' then Abort
              else Continue)" for s
    using u o by (simp_all add: onRequest_fst isSentryResource_iff)
  have a: "attempts_next (snd (onRequest ?X ?c ?q s)) ''https://example.com/app.js''
             = attempts_next s ''https://example.com/app.js'' + 1" for s
    using u by (simp add: onRequest_attempts_next)
  have nav: "fst (onRequests ?X ?c (nav_requests ?env) new_session)
               = [Continue, Continue, Continue, Continue, Continue]"
    by (simp add: split_beta Let_def d a onRequest_hasTimedOut) (simp add: new_session_def)
  have post: "fst (onRequests ?X ?c (post_requests ?env)
                    ((snd (onRequests ?X ?c (nav_requests ?env) new_session))
                       \<lparr>hasTimedOut := False\<rparr>)) = [Abort]"
    by (simp add: split_beta Let_def d a onRequest_hasTimedOut)
  have navE: "fst (onRequests ?X ?c (nav_requests ?envE) new_session) = [Continue]"
    by (simp add: split_beta Let_def d) (simp add: new_session_def)
  have 2: "\<exists>w3. request ?X ?pn ?env ''https://example.com/'' ?w
              = postLoad ?X ?pn ?env ''https://example.com/'' w3
            \<and> decisions w3 = [Continue, Continue, Continue, Continue, Continue, Abort]"
    using retry_ceiling [where X = ?X and pn = ?pn and env = ?env and u = "''https://example.com/''"
        and w = ?w, THEN conjunct2, THEN conjunct1] nav post
    by simp
  have 3: "\<exists>w'. request ?X ?pn ?envE ''https://example.com/'' ?w = Some w'
            \<and> decisions w' = [Continue]"
    using retry_ceiling [where X = ?X and pn = ?pn and env = ?envE and u = "''https://example.com/''"
        and w = ?w and m = "''net::ERR_CONNECTION_REFUSED''",
        THEN conjunct2, THEN conjunct2, THEN conjunct1] navE
    by simp
  show ?thesis
    using ns u o 2 3
      retry_ceiling [where r = ?r and X = "\<lambda>link ds. True" and c = ?c and ?rs2.0 = "[]"
          and ?rs1.0 = "replicate 4 ?q" and b = False, THEN conjunct1]
      retry_ceiling [where r = ?r and X = "\<lambda>link ds. True" and c = ?c and ?rs2.0 = "[]"
          and ?rs1.0 = "replicate 5 ?q" and b = False, THEN conjunct1]
    by simp
qed

text \<open>
  Claim C4 does not hold as stated: after a navigation timeout, a request to a Sentry
  prefix is still continued, because the handler tests the prefix before it tests
  \<^verbatim>\<open>hasTimedOut\<close>.
\<close>

theorem timed_out_telemetry_counterexample:
  "\<exists>w'. request (\<lambda>link ds. True) (\<lambda>u. Inr ''/'')
          \<lparr>nav_requests = [], goto_result = Some TimeoutError,
           post_requests = [\<lparr>req_url = ''https://sentry.io/api/1/store/'', resourceType = ''xhr''\<rparr>],
           viewport_result = None,
           rounds = (\<lambda>k. \<lparr>page_url = ''https://example.com/'', screenshot_result = None,
                           anchors = Inr [], scroll_result = None, checkboxes_result = None,
                           navigation_result = None\<rparr>)\<rparr>
          ''https://example.com/''
          \<lparr>self = cli_Crawler \<lparr>a_url = ''https://example.com/'', a_screenshots = None,
                                a_concurrency = None, a_username = None, a_password = None\<rparr>
                     4 [''example.com''],
           page_calls = [], decisions = []\<rparr> = Some w'
      \<and> decisions w' = [Continue]"
proof -
  let ?env = "\<lparr>nav_requests = [], goto_result = Some TimeoutError,
           post_requests = [\<lparr>req_url = ''https://sentry.io/api/1/store/'', resourceType = ''xhr''\<rparr>],
           viewport_result = None,
           rounds = (\<lambda>k. \<lparr>page_url = ''https://example.com/'', screenshot_result = None,
                           anchors = Inr [], scroll_result = None, checkboxes_result = None,
                           navigation_result = None\<rparr>)\<rparr>"
  let ?w = "\<lparr>self = cli_Crawler \<lparr>a_url = ''https://example.com/'', a_screenshots = None,
                                a_concurrency = None, a_username = None, a_password = None\<rparr>
                     4 [''example.com''],
           page_calls = [], decisions = []\<rparr>"
  have "\<exists>w'. request (\<lambda>link ds. True) (\<lambda>u. Inr ''/'') ?env ''https://example.com/'' ?w = Some w'"
  proof (rule request_returns)
    fix w3 :: world
    assume "screenshots (self w3) = screenshots (self ?w)"
      "c_formConfigs (self w3) = c_formConfigs (self ?w)"
    then have "\<exists>w'. processPage (\<lambda>link ds. True) (\<lambda>u. Inr ''/'') (rounds ?env) 0
                   (Some ''https://example.com/'') (call SetViewport w3) = Some (None, w')"
      by (intro processPage_returns_no_form [where ls = "[]"])
         (simp_all add: cli_Crawler_def new_Crawler_def or_list_def or_null_def or_url_def
            cli_formConfigs_def login_re_home)
    then show "processPage (\<lambda>link ds. True) (\<lambda>u. Inr ''/'') (rounds ?env) 0
                   (Some ''https://example.com/'') (call SetViewport w3) \<noteq> None"
      by auto
  qed
  then obtain w' where
    r: "request (\<lambda>link ds. True) (\<lambda>u. Inr ''/'') ?env ''https://example.com/'' ?w = Some w'"
    by blast
  have "decisions w' = [Continue]"
    using request_decisions [OF r]
    by (simp add: split_beta Let_def onRequest_fst isSentryResource_iff requestUrl_def split0_def)
  with r show ?thesis by blast
qed

text \<open>
  Claim C4, amended. If the navigation times out, the task is the second \<^verbatim>\<open>try\<close> block
  (viewport, \<^verbatim>\<open>_processPage\<close>) run in a world where \<open>(url, TimeoutError)\<close> has been
  appended to the errors and every later request of the page that is not to a Sentry
  prefix has been aborted; when the task returns, the error is in the list and
  \<^verbatim>\<open>setViewport\<close> was called after \<^verbatim>\<open>goto\<close>. If the navigation fails with another
  error, the task returns with \<open>(url, error)\<close> appended, the page closed right after
  \<^verbatim>\<open>goto\<close>, and nothing else done: no other page call, queue and visited set unchanged.
\<close>

theorem navigation_failure:
  "(goto_result env = Some TimeoutError \<longrightarrow>
      (\<exists>w3 ds. request X pn env u w = postLoad X pn env u w3
         \<and> page_calls w3 = page_calls w @ [Goto u]
         \<and> c_errors (self w3) = c_errors (self w) @ [(u, TimeoutError)]
         \<and> decisions w3 =
             decisions w @ fst (onRequests X (self w) (nav_requests env) new_session) @ ds
         \<and> length ds = length (post_requests env)
         \<and> (\<forall>i<length ds. \<not> isSentryResource (req_url (post_requests env ! i)) \<longrightarrow> ds ! i = Abort))
      \<and> (\<forall>w'. request X pn env u w = Some w' \<longrightarrow>
           (\<exists>es. c_errors (self w') = c_errors (self w) @ (u, TimeoutError) # es)
           \<and> (\<exists>cs. page_calls w' = page_calls w @ Goto u # SetViewport # cs)))
   \<and> (goto_result env = Some (Error m) \<longrightarrow>
        request X pn env u w =
          Some \<lparr>self = (self w)\<lparr>c_errors := c_errors (self w) @ [(u, Error m)],
                               c_count := c_count (self w) + 1\<rparr>,
                page_calls = page_calls w @ [Goto u, Close],
                decisions = decisions w @ fst (onRequests X (self w) (nav_requests env) new_session)\<rparr>)"
proof (intro conjI impI)
  assume g: "goto_result env = Some TimeoutError"
  then have "goto_result env = None \<or> goto_result env = Some TimeoutError" by simp
  then obtain w3 where 3: "request X pn env u w = postLoad X pn env u w3"
    "page_calls w3 = page_calls w @ [Goto u]"
    "c_errors (self w3) =
       c_errors (self w) @ (if goto_result env = None then [] else [(u, TimeoutError)])"
    "decisions w3 =
       decisions w @ fst (onRequests X (self w) (nav_requests env) new_session)
         @ fst (onRequests X (self w) (post_requests env)
                 ((snd (onRequests X (self w) (nav_requests env) new_session))
                    \<lparr>hasTimedOut := (goto_result env = Some TimeoutError)\<rparr>))"
    by (rule request_continues)
  let ?ds = "fst (onRequests X (self w) (post_requests env)
                 ((snd (onRequests X (self w) (nav_requests env) new_session))\<lparr>hasTimedOut := True\<rparr>))"
  have l: "length ?ds = length (post_requests env)"
    by (rule onRequests_length)
  have a: "\<forall>i<length ?ds. \<not> isSentryResource (req_url (post_requests env ! i)) \<longrightarrow> ?ds ! i = Abort"
    using l by (simp add: onRequests_timed_out)
  show "\<exists>w3 ds. request X pn env u w = postLoad X pn env u w3
         \<and> page_calls w3 = page_calls w @ [Goto u]
         \<and> c_errors (self w3) = c_errors (self w) @ [(u, TimeoutError)]
         \<and> decisions w3 =
             decisions w @ fst (onRequests X (self w) (nav_requests env) new_session) @ ds
         \<and> length ds = length (post_requests env)
         \<and> (\<forall>i<length ds. \<not> isSentryResource (req_url (post_requests env ! i)) \<longrightarrow> ds ! i = Abort)"
    using 3 g l a by (intro exI [of _ w3] exI [of _ ?ds]) simp
  show "\<forall>w'. request X pn env u w = Some w' \<longrightarrow>
           (\<exists>es. c_errors (self w') = c_errors (self w) @ (u, TimeoutError) # es)
           \<and> (\<exists>cs. page_calls w' = page_calls w @ Goto u # SetViewport # cs)"
  proof (intro allI impI)
    fix w' assume "request X pn env u w = Some w'"
    with 3(1) have "postLoad X pn env u w3 = Some w'" by simp
    from postLoad_result [OF this] obtain cs es where
      "page_calls w' = page_calls w3 @ SetViewport # cs @ [Close]"
      "c_errors (self w') = c_errors (self w3) @ es" by blast
    with 3(2,3) g have "c_errors (self w') = c_errors (self w) @ (u, TimeoutError) # es"
      "page_calls w' = page_calls w @ Goto u # SetViewport # (cs @ [Close])" by simp_all
    then show "(\<exists>es. c_errors (self w') = c_errors (self w) @ (u, TimeoutError) # es)
           \<and> (\<exists>cs. page_calls w' = page_calls w @ Goto u # SetViewport # cs)" by blast
  qed
next
  assume "goto_result env = Some (Error m)"
  then show "request X pn env u w =
          Some \<lparr>self = (self w)\<lparr>c_errors := c_errors (self w) @ [(u, Error m)],
                               c_count := c_count (self w) + 1\<rparr>,
                page_calls = page_calls w @ [Goto u, Close],
                decisions = decisions w @ fst (onRequests X (self w) (nav_requests env) new_session)\<rparr>"
    by (rule request_error)
qed

theorem navigation_failure_witness:
  "(\<exists>w3 ds. request (\<lambda>link ds. True) (\<lambda>u. Inr ''/'')
          \<lparr>nav_requests = [\<lparr>req_url = ''https://example.com/'', resourceType = ''document''\<rparr>],
           goto_result = Some TimeoutError,
           post_requests = [\<lparr>req_url = ''https://example.com/app.js'', resourceType = ''script''\<rparr>],
           viewport_result = None,
           rounds = (\<lambda>k. \<lparr>page_url = ''https://example.com/'', screenshot_result = None,
                           anchors = Inr [], scroll_result = None, checkboxes_result = None,
                           navigation_result = None\<rparr>)\<rparr>
          ''https://example.com/''
          \<lparr>self = cli_Crawler \<lparr>a_url = ''https://example.com/'', a_screenshots = None,
                                a_concurrency = None, a_username = None, a_password = None\<rparr>
                     4 [''example.com''],
           page_calls = [], decisions = []\<rparr>
        = postLoad (\<lambda>link ds. True) (\<lambda>u. Inr ''/'')
          \<lparr>nav_requests = [\<lparr>req_url = ''https://example.com/'', resourceType = ''document''\<rparr>],
           goto_result = Some TimeoutError,
           post_requests = [\<lparr>req_url = ''https://example.com/app.js'', resourceType = ''script''\<rparr>],
           viewport_result = None,
           rounds = (\<lambda>k. \<lparr>page_url = ''https://example.com/'', screenshot_result = None,
                           anchors = Inr [], scroll_result = None, checkboxes_result = None,
                           navigation_result = None\<rparr>)\<rparr>
          ''https://example.com/'' w3
      \<and> page_calls w3 = [Goto ''https://example.com/'']
      \<and> c_errors (self w3) = [(''https://example.com/'', TimeoutError)]
      \<and> decisions w3 = [Continue, Abort])
   \<and> (\<exists>w'. request (\<lambda>link ds. True) (\<lambda>u. Inr ''/'')
          \<lparr>nav_requests = [\<lparr>req_url = ''https://example.com/'', resourceType = ''document''\<rparr>],
           goto_result = Some (Error ''net::ERR_CONNECTION_REFUSED''),
           post_requests = [],
           viewport_result = None,
           rounds = (\<lambda>k. \<lparr>page_url = ''https://example.com/'', screenshot_result = None,
                           anchors = Inr [], scroll_result = None, checkboxes_result = None,
                           navigation_result = None\<rparr>)\<rparr>
          ''https://example.com/''
          \<lparr>self = cli_Crawler \<lparr>a_url = ''https://example.com/'', a_screenshots = None,
                                a_concurrency = None, a_username = None, a_password = None\<rparr>
                     4 [''example.com''],
           page_calls = [], decisions = []\<rparr> = Some w'
      \<and> c_errors (self w') = [(''https://example.com/'', Error ''net::ERR_CONNECTION_REFUSED'')]
      \<and> page_calls w' = [Goto ''https://example.com/'', Close]
      \<and> c_visited (self w') = {} \<and> pending (c_queue (self w')) = [])"
proof -
  let ?X = "\<lambda>(link::string) (ds::string list). True"
  let ?pn = "\<lambda>u::string. Inr ''/'' :: error + string"
  let ?R = "\<lambda>k::nat. \<lparr>page_url = ''https://example.com/'', screenshot_result = None,
                           anchors = Inr [], scroll_result = None, checkboxes_result = None,
                           navigation_result = None\<rparr>"
  let ?doc = "\<lparr>req_url = ''https://example.com/'', resourceType = ''document''\<rparr>"
  let ?js = "\<lparr>req_url = ''https://example.com/app.js'', resourceType = ''script''\<rparr>"
  let ?envT = "\<lparr>nav_requests = [?doc], goto_result = Some TimeoutError, post_requests = [?js],
                viewport_result = None, rounds = ?R\<rparr>"
  let ?envE = "\<lparr>nav_requests = [?doc], goto_result = Some (Error ''net::ERR_CONNECTION_REFUSED''),
                post_requests = [], viewport_result = None, rounds = ?R\<rparr>"
  let ?w = "\<lparr>self = cli_Crawler \<lparr>a_url = ''https://example.com/'', a_screenshots = None,
                                a_concurrency = None, a_username = None, a_password = None\<rparr>
                     4 [''example.com''],
           page_calls = [], decisions = []\<rparr>"
  have doc: "fst (onRequests ?X (self ?w) [?doc] new_session) = [Continue]"
    by (simp add: split_beta Let_def onRequest_fst isSentryResource_iff requestUrl_def split0_def
          BLOCKED_RESOURCE_TYPES_def SKIPPED_RESOURCES_def some_indexOf_def indexOf_def
          cli_Crawler_def new_Crawler_def or_list_def new_session_def attempts_next_def)
  have js: "\<not> isSentryResource (req_url ?js)"
    by (simp add: isSentryResource_iff)
  from navigation_failure [of ?envT ?X ?pn "''https://example.com/''" ?w "''''", THEN conjunct1]
  obtain w3 ds where 3:
    "request ?X ?pn ?envT ''https://example.com/'' ?w = postLoad ?X ?pn ?envT ''https://example.com/'' w3"
    "page_calls w3 = page_calls ?w @ [Goto ''https://example.com/'']"
    "c_errors (self w3) = c_errors (self ?w) @ [(''https://example.com/'', TimeoutError)]"
    "decisions w3 = decisions ?w @ fst (onRequests ?X (self ?w) (nav_requests ?envT) new_session) @ ds"
    "length ds = length (post_requests ?envT)"
    "\<forall>i<length ds. \<not> isSentryResource (req_url (post_requests ?envT ! i)) \<longrightarrow> ds ! i = Abort"
    by auto
  from 3(5,6) js have "ds = [Abort]"
    by (cases ds) auto
  with 3(1-4) doc have T: "\<exists>w3 ds. request ?X ?pn ?envT ''https://example.com/'' ?w
        = postLoad ?X ?pn ?envT ''https://example.com/'' w3
      \<and> page_calls w3 = [Goto ''https://example.com/'']
      \<and> c_errors (self w3) = [(''https://example.com/'', TimeoutError)]
      \<and> decisions w3 = [Continue, Abort]"
    by (auto simp: cli_Crawler_def new_Crawler_def)
  from navigation_failure [of ?envE ?X ?pn "''https://example.com/''" ?w
      "''net::ERR_CONNECTION_REFUSED''", THEN conjunct2]
  have E: "\<exists>w'. request ?X ?pn ?envE ''https://example.com/'' ?w = Some w'
      \<and> c_errors (self w') = [(''https://example.com/'', Error ''net::ERR_CONNECTION_REFUSED'')]
      \<and> page_calls w' = [Goto ''https://example.com/'', Close]
      \<and> c_visited (self w') = {} \<and> pending (c_queue (self w')) = []"
    by (simp add: cli_Crawler_def new_Crawler_def new_PriorityQueue_def)
  from T E show ?thesis by blast
qed

text \<open>
  Claim C7. Whenever \<^verbatim>\<open>_request\<close> returns, the calls it has made on the page start with
  \<^verbatim>\<open>goto\<close> and end with \<^verbatim>\<open>close\<close>: this covers normal completion, a navigation
  timeout, another navigation error, and an error in post-load processing. (It returns
  unless \<^verbatim>\<open>_processPage\<close> does not.)
\<close>

theorem page_closed_on_every_exit:
  assumes "request X pn env u w = Some w'"
  shows "\<exists>cs. page_calls w' = page_calls w @ Goto u # cs @ [Close]"
proof (cases "goto_result env = None \<or> goto_result env = Some TimeoutError")
  case True
  then obtain w3 where 3: "request X pn env u w = postLoad X pn env u w3"
    "page_calls w3 = page_calls w @ [Goto u]"
    by (rule request_continues)
  with assms have "postLoad X pn env u w3 = Some w'" by simp
  from postLoad_result [OF this] obtain cs where
    "page_calls w' = page_calls w3 @ SetViewport # cs @ [Close]" by blast
  with 3(2) have "page_calls w' = page_calls w @ Goto u # (SetViewport # cs) @ [Close]" by simp
  then show ?thesis by blast
next
  case False
  then obtain m where "goto_result env = Some (Error m)"
    by (cases "goto_result env") (auto intro: error.exhaust)
  from request_error [OF this, of X pn u w] assms
  have "page_calls w' = page_calls w @ Goto u # [] @ [Close]" by auto
  then show ?thesis by blast
qed

theorem page_closed_on_every_exit_witness:
  "(\<exists>w'. request (\<lambda>link ds. True) (\<lambda>u. Inr ''/'')
          \<lparr>nav_requests = [], goto_result = None, post_requests = [], viewport_result = None,
           rounds = (\<lambda>k. \<lparr>page_url = ''https://example.com/'', screenshot_result = None,
                           anchors = Inr [], scroll_result = None, checkboxes_result = None,
                           navigation_result = None\<rparr>)\<rparr>
          ''https://example.com/''
          \<lparr>self = cli_Crawler \<lparr>a_url = ''https://example.com/'', a_screenshots = None,
                                a_concurrency = None, a_username = None, a_password = None\<rparr>
                     4 [''example.com''],
           page_calls = [], decisions = []\<rparr> = Some w'
      \<and> (\<exists>cs. page_calls w' = Goto ''https://example.com/'' # cs @ [Close]))
   \<and> (\<exists>w'. request (\<lambda>link ds. True) (\<lambda>u. Inr ''/'')
          \<lparr>nav_requests = [], goto_result = Some TimeoutError, post_requests = [],
           viewport_result = None,
           rounds = (\<lambda>k. \<lparr>page_url = ''https://example.com/'', screenshot_result = None,
                           anchors = Inr [], scroll_result = None, checkboxes_result = None,
                           navigation_result = None\<rparr>)\<rparr>
          ''https://example.com/''
          \<lparr>self = cli_Crawler \<lparr>a_url = ''https://example.com/'', a_screenshots = None,
                                a_concurrency = None, a_username = None, a_password = None\<rparr>
                     4 [''example.com''],
           page_calls = [], decisions = []\<rparr> = Some w'
      \<and> (\<exists>cs. page_calls w' = Goto ''https://example.com/'' # cs @ [Close]))
   \<and> (\<exists>w'. request (\<lambda>link ds. True) (\<lambda>u. Inr ''/'')
          \<lparr>nav_requests = [], goto_result = Some (Error ''net::ERR_CONNECTION_REFUSED''),
           post_requests = [], viewport_result = None,
           rounds = (\<lambda>k. \<lparr>page_url = ''https://example.com/'', screenshot_result = None,
                           anchors = Inr [], scroll_result = None, checkboxes_result = None,
                           navigation_result = None\<rparr>)\<rparr>
          ''https://example.com/''
          \<lparr>self = cli_Crawler \<lparr>a_url = ''https://example.com/'', a_screenshots = None,
                                a_concurrency = None, a_username = None, a_password = None\<rparr>
                     4 [''example.com''],
           page_calls = [], decisions = []\<rparr> = Some w'
      \<and> (\<exists>cs. page_calls w' = Goto ''https://example.com/'' # cs @ [Close]))
   \<and> (\<exists>w'. request (\<lambda>link ds. True) (\<lambda>u. Inr ''/'')
          \<lparr>nav_requests = [], goto_result = None, post_requests = [], viewport_result = None,
           rounds = (\<lambda>k. \<lparr>page_url = ''https://example.com/'', screenshot_result = None,
                           anchors = Inl (Error ''Execution context was destroyed''),
                           scroll_result = None, checkboxes_result = None,
                           navigation_result = None\<rparr>)\<rparr>
          ''https://example.com/''
          \<lparr>self = cli_Crawler \<lparr>a_url = ''https://example.com/'', a_screenshots = None,
                                a_concurrency = None, a_username = None, a_password = None\<rparr>
                     4 [''example.com''],
           page_calls = [], decisions = []\<rparr> = Some w'
      \<and> (\<exists>cs. page_calls w' = Goto ''https://example.com/'' # cs @ [Close]))"
proof -
  let ?X = "\<lambda>(link::string) (ds::string list). True"
  let ?pn = "\<lambda>u::string. Inr ''/'' :: error + string"
  let ?R = "\<lambda>k::nat. \<lparr>page_url = ''https://example.com/'', screenshot_result = None,
                           anchors = Inr [], scroll_result = None, checkboxes_result = None,
                           navigation_result = None\<rparr>"
  let ?P = "\<lambda>k::nat. \<lparr>page_url = ''https://example.com/'', screenshot_result = None,
                           anchors = Inl (Error ''Execution context was destroyed''),
                           scroll_result = None, checkboxes_result = None,
                           navigation_result = None\<rparr>"
  let ?w = "\<lparr>self = cli_Crawler \<lparr>a_url = ''https://example.com/'', a_screenshots = None,
                                a_concurrency = None, a_username = None, a_password = None\<rparr>
                     4 [''example.com''],
           page_calls = [], decisions = []\<rparr>"
  let ?u = "''https://example.com/''"
  have s: "screenshots (self ?w) = None"
    "c_formConfigs (self ?w) =
       cli_formConfigs \<lparr>a_url = ''https://example.com/'', a_screenshots = None,
                                a_concurrency = None, a_username = None, a_password = None\<rparr>"
    by (simp_all add: cli_Crawler_def new_Crawler_def or_list_def or_null_def)
  have ret: "\<exists>w'. request ?X ?pn env ?u ?w = Some w'" if "rounds env = ?R \<or> rounds env = ?P" for env
  proof (rule request_returns)
    fix w3 :: world
    assume a: "screenshots (self w3) = screenshots (self ?w)"
      "c_formConfigs (self w3) = c_formConfigs (self ?w)"
    from that show "processPage ?X ?pn (rounds env) 0 (Some ?u) (call SetViewport w3) \<noteq> None"
    proof
      assume r: "rounds env = ?R"
      have "\<exists>w'. processPage ?X ?pn ?R 0 (Some ?u) (call SetViewport w3) = Some (None, w')"
        using a unfolding s
        by (intro processPage_returns_no_form [where ls = "[]"])
           (simp_all add: or_url_def cli_formConfigs_def login_re_home)
      with r show ?thesis by auto
    next
      assume r: "rounds env = ?P"
      have "processPage ?X ?pn ?P 0 (Some ?u) (call SetViewport w3)
              = Some (Some (Error ''Execution context was destroyed''), call QueryAnchors (call SetViewport w3))"
        using a unfolding s by (intro processPage_throws_at_anchors) simp_all
      with r show ?thesis by simp
    qed
  qed
  have closed: "\<exists>w'. request ?X ?pn env ?u ?w = Some w'
                  \<and> (\<exists>cs. page_calls w' = Goto ?u # cs @ [Close])"
    if "rounds env = ?R \<or> rounds env = ?P" for env
  proof -
    from ret [OF that] obtain w' where r: "request ?X ?pn env ?u ?w = Some w'" by blast
    from page_closed_on_every_exit [OF r] r show ?thesis by simp
  qed
  show ?thesis
    by (intro conjI closed) simp_all
qed

end
